(* ===== verification/Go_Strings.thy ===== *)
theory Go_Strings
  imports Prelude
begin

section \<open>The string functions of Go that the program calls\<close>

text \<open>
  A Go string is a sequence of bytes, here a \<^typ>\<open>char list\<close>. This theory holds the
  functions of packages strings, encoding/hex and net/url that the sources call. The one
  part left open is the Unicode table behind strings.ToLower: \<open>to_lower\<close> takes the
  mapping of strings with a byte above 127 as an argument and computes the ASCII case
  itself, as the fast path of the Go function does.
\<close>

abbreviation byte :: "char \<Rightarrow> nat" where
  "byte c \<equiv> of_char c"

lemma byte_less [bounds]: "byte c < 256"
  by (rule nat_of_char_less_256)

lemma nibbles [bounds]: "byte c div 16 < 16" "byte c mod 16 < 16"
  using byte_less [of c] by (simp_all add: less_mult_imp_div_less)

lemma byte_inject [simp]: "byte c = byte d \<longleftrightarrow> c = d"
  by (rule of_char_eq_iff)

subsection \<open>Case mapping\<close>

definition lower_char :: "char \<Rightarrow> char" where
  "lower_char c = (if 65 \<le> byte c \<and> byte c \<le> 90 then char_of (byte c + 32) else c)"

definition ascii_string :: "string \<Rightarrow> bool" where
  "ascii_string s = list_all (\<lambda>c. byte c < 128) s"

definition to_lower :: "(string \<Rightarrow> string) \<Rightarrow> string \<Rightarrow> string" where
  "to_lower unicode s = (if ascii_string s then map lower_char s else unicode s)"

lemma byte_lower_char:
  "byte (lower_char c) = (if 65 \<le> byte c \<and> byte c \<le> 90 then byte c + 32 else byte c)"
  by (simp add: lower_char_def)

lemma lower_char_idem [simp]: "lower_char (lower_char c) = lower_char c"
  by (simp add: lower_char_def)

lemma lower_char_eq_self: "lower_char c = c \<longleftrightarrow> \<not> (65 \<le> byte c \<and> byte c \<le> 90)"
proof -
  have "lower_char c = c \<longleftrightarrow> byte (lower_char c) = byte c" by simp
  then show ?thesis by (simp add: byte_lower_char)
qed

lemma ascii_lower: "ascii_string s \<Longrightarrow> ascii_string (map lower_char s)"
  by (auto simp: ascii_string_def list_all_iff byte_lower_char)

lemma to_lower_ascii [simp]: "ascii_string s \<Longrightarrow> to_lower u s = map lower_char s"
  by (simp add: to_lower_def)

lemma to_lower_ascii_idem: "ascii_string s \<Longrightarrow> to_lower u (to_lower u s) = to_lower u s"
  by (simp add: ascii_lower o_def)

lemma to_lower_ascii_fixed:
  assumes "ascii_string s"
  shows "s = to_lower u s \<longleftrightarrow> list_all (\<lambda>c. \<not> (65 \<le> byte c \<and> byte c \<le> 90)) s"
proof -
  have "s = map lower_char s \<longleftrightarrow> (\<forall>c \<in> set s. lower_char c = c)"
    by (metis list.map_ident map_eq_conv)
  then show ?thesis
    using assms by (simp add: lower_char_eq_self list_all_iff)
qed

text \<open>
  Simple case folding against an ASCII word: besides the ASCII letters, only the long s
  (bytes C5 BF) and the Kelvin sign (bytes E2 84 AA) fold to an ASCII letter. Used by
  strings.EqualFold and by the member matching of encoding/json.
\<close>

definition upper_char :: "char \<Rightarrow> char" where
  "upper_char c = (if 97 \<le> byte c \<and> byte c \<le> 122 then char_of (byte c - 32) else c)"

fun fold_name :: "string \<Rightarrow> string" where
  "fold_name (a # b # c # s) =
     (if byte a = 226 \<and> byte b = 132 \<and> byte c = 170 then CHR ''K'' # fold_name s
      else if byte a = 197 \<and> byte b = 191 then CHR ''S'' # fold_name (c # s)
      else upper_char a # fold_name (b # c # s))"
| "fold_name [a, b] =
     (if byte a = 197 \<and> byte b = 191 then ''S'' else [upper_char a, upper_char b])"
| "fold_name [a] = [upper_char a]"
| "fold_name [] = []"

definition equal_fold :: "string \<Rightarrow> string \<Rightarrow> bool" where
  "equal_fold s t = (fold_name s = fold_name t)"

lemma equal_fold_refl [simp]: "equal_fold s s"
  by (simp add: equal_fold_def)

subsection \<open>Trimming\<close>

definition trim_left_chars :: "string \<Rightarrow> string \<Rightarrow> string" where
  "trim_left_chars cutset s = dropWhile (\<lambda>c. c \<in> set cutset) s"

definition trim_right_chars :: "string \<Rightarrow> string \<Rightarrow> string" where
  "trim_right_chars cutset s = rev (dropWhile (\<lambda>c. c \<in> set cutset) (rev s))"

definition trim_chars :: "string \<Rightarrow> string \<Rightarrow> string" where
  "trim_chars cutset s = trim_right_chars cutset (trim_left_chars cutset s)"

lemma trim_right_Nil [simp]: "trim_right_chars cs [] = []"
  by (simp add: trim_right_chars_def)

lemma trim_right_snoc:
  "trim_right_chars cs (s @ [c]) = (if c \<in> set cs then trim_right_chars cs s else s @ [c])"
  by (simp add: trim_right_chars_def)

lemma trim_right_last:
  "trim_right_chars cs s \<noteq> [] \<Longrightarrow> last (trim_right_chars cs s) \<notin> set cs"
  by (induction s rule: rev_induct) (auto simp: trim_right_snoc)

lemma trim_right_idem [simp]:
  "trim_right_chars cs (trim_right_chars cs s) = trim_right_chars cs s"
  by (induction s rule: rev_induct) (auto simp: trim_right_snoc)

lemma trim_right_prefix: "prefix (trim_right_chars cs s) s"
  by (induction s rule: rev_induct) (auto simp: trim_right_snoc)

text \<open>
  strings.TrimSpace removes the code points unicode.IsSpace accepts. The ones outside
  ASCII are two or three bytes long in UTF-8.
\<close>

definition space1 :: "char \<Rightarrow> bool" where
  "space1 a = (byte a = 32 \<or> 9 \<le> byte a \<and> byte a \<le> 13)"

definition space2 :: "char \<Rightarrow> char \<Rightarrow> bool" where
  "space2 a b = (byte a = 194 \<and> (byte b = 133 \<or> byte b = 160))"

definition space3 :: "char \<Rightarrow> char \<Rightarrow> char \<Rightarrow> bool" where
  "space3 a b c =
     (byte a = 225 \<and> byte b = 154 \<and> byte c = 128
    \<or> byte a = 226 \<and> byte b = 128
        \<and> (128 \<le> byte c \<and> byte c \<le> 138 \<or> byte c = 168 \<or> byte c = 169 \<or> byte c = 175)
    \<or> byte a = 226 \<and> byte b = 129 \<and> byte c = 159
    \<or> byte a = 227 \<and> byte b = 128 \<and> byte c = 128)"

fun trim_left_space :: "string \<Rightarrow> string" where
  "trim_left_space (a # b # c # s) =
     (if space1 a then trim_left_space (b # c # s)
      else if space2 a b then trim_left_space (c # s)
      else if space3 a b c then trim_left_space s
      else a # b # c # s)"
| "trim_left_space [a, b] =
     (if space1 a then trim_left_space [b] else if space2 a b then [] else [a, b])"
| "trim_left_space [a] = (if space1 a then [] else [a])"
| "trim_left_space [] = []"

text \<open>The same from the right, on the reversed string.\<close>

fun trim_right_space_rev :: "string \<Rightarrow> string" where
  "trim_right_space_rev (c # b # a # s) =
     (if space1 c then trim_right_space_rev (b # a # s)
      else if space2 b c then trim_right_space_rev (a # s)
      else if space3 a b c then trim_right_space_rev s
      else c # b # a # s)"
| "trim_right_space_rev [c, b] =
     (if space1 c then trim_right_space_rev [b] else if space2 b c then [] else [c, b])"
| "trim_right_space_rev [c] = (if space1 c then [] else [c])"
| "trim_right_space_rev [] = []"

definition trim_space :: "string \<Rightarrow> string" where
  "trim_space s = rev (trim_right_space_rev (rev (trim_left_space s)))"

text \<open>A plain byte can neither be a space nor start or end the encoding of one.\<close>

definition plain :: "char \<Rightarrow> bool" where
  "plain c = (33 \<le> byte c \<and> byte c < 127)"

lemma plain_not_space [simp]:
  "plain c \<Longrightarrow> \<not> space1 c"
  "plain c \<Longrightarrow> \<not> space2 c d"
  "plain c \<Longrightarrow> \<not> space2 d c"
  "plain c \<Longrightarrow> \<not> space3 c d e"
  "plain c \<Longrightarrow> \<not> space3 d e c"
  "plain c \<Longrightarrow> \<not> space3 d c e"
  by (auto simp: plain_def space1_def space2_def space3_def)

lemma trim_left_space_plain: "plain c \<Longrightarrow> trim_left_space (c # s) = c # s"
  by (cases "c # s" rule: trim_left_space.cases) auto

lemma trim_right_space_rev_plain: "plain c \<Longrightarrow> trim_right_space_rev (c # s) = c # s"
  by (cases "c # s" rule: trim_right_space_rev.cases) auto

lemma trim_left_space_blank: "trim_left_space (CHR '' '' # s) = trim_left_space s"
  by (cases "CHR '' '' # s" rule: trim_left_space.cases) (auto simp: space1_def)

lemma trim_space_plain:
  assumes "s \<noteq> []" "plain (hd s)" "plain (last s)"
  shows "trim_space s = s"
proof -
  obtain a t where s: "s = a # t" using assms(1) by (cases s) auto
  obtain u b where r: "s = u @ [b]" using assms(1) by (cases s rule: rev_cases) auto
  have "trim_left_space s = s" using s assms(2) by (simp add: trim_left_space_plain)
  moreover have "trim_right_space_rev (rev s) = rev s"
    using r assms(3) by (simp add: trim_right_space_rev_plain)
  ultimately show ?thesis by (simp add: trim_space_def)
qed

lemma trim_space_blank_plain:
  assumes "s \<noteq> []" "plain (hd s)" "plain (last s)"
  shows "trim_space (CHR '' '' # s) = s"
  using trim_space_plain [OF assms] by (simp add: trim_space_def trim_left_space_blank)

lemma trim_space_Nil [simp]: "trim_space [] = []"
  by (simp add: trim_space_def)

subsection \<open>Searching and splitting\<close>

definition has_prefix :: "string \<Rightarrow> string \<Rightarrow> bool" where
  "has_prefix s p = (take (length p) s = p)"

definition has_suffix :: "string \<Rightarrow> string \<Rightarrow> bool" where
  "has_suffix s p = (length p \<le> length s \<and> drop (length s - length p) s = p)"

lemma has_prefix_iff: "has_prefix s p \<longleftrightarrow> prefix p s"
  unfolding has_prefix_def prefix_def by (metis append_eq_conv_conj append_take_drop_id)

lemma has_suffix_iff: "has_suffix s p \<longleftrightarrow> suffix p s"
proof
  assume "has_suffix s p"
  then show "suffix p s"
    unfolding has_suffix_def suffix_def by (metis append_take_drop_id)
qed (auto simp: has_suffix_def suffix_def)

fun contains :: "string \<Rightarrow> string \<Rightarrow> bool" where
  "contains [] p = (p = [])"
| "contains (c # s) p = (has_prefix (c # s) p \<or> contains s p)"

lemma contains_iff: "contains s p \<longleftrightarrow> sublist p s"
  by (induction s) (auto simp: has_prefix_iff sublist_Cons_right)

text \<open>strings.LastIndex: the last position where \<open>p\<close> occurs, or -1.\<close>

fun last_index :: "string \<Rightarrow> string \<Rightarrow> int" where
  "last_index [] p = (if p = [] then 0 else -1)"
| "last_index (c # s) p =
     (let r = last_index s p
      in if 0 \<le> r then r + 1 else if has_prefix (c # s) p then 0 else -1)"

lemma last_index_suffix: "last_index (s @ p) p = int (length s)"
proof (induction s)
  case Nil
  show ?case
  proof (cases p)
    case (Cons c q)
    have "last_index t p \<le> -1" if "length t < length p" for t
      using that by (induction t) (auto simp: has_prefix_def Let_def)
    then have "last_index q p \<le> -1" by (simp add: Cons)
    with Cons show ?thesis by (simp add: has_prefix_def)
  qed simp
qed simp

text \<open>strings.Split with a one-byte separator.\<close>

fun split_on :: "char \<Rightarrow> string \<Rightarrow> string list" where
  "split_on c [] = [[]]"
| "split_on c (x # s) =
     (if x = c then [] # split_on c s
      else (case split_on c s of [] \<Rightarrow> [[x]] | y # ys \<Rightarrow> (x # y) # ys))"

fun join_with :: "char \<Rightarrow> string list \<Rightarrow> string" where
  "join_with c [] = []"
| "join_with c [s] = s"
| "join_with c (s # t # ts) = s @ c # join_with c (t # ts)"

lemma split_on_nonempty [simp]: "split_on c s \<noteq> []"
  by (induction s) (auto split: list.splits)

lemma split_on_no_sep: "c \<notin> set s \<Longrightarrow> split_on c s = [s]"
  by (induction s) auto

lemma split_on_append: "c \<notin> set s \<Longrightarrow> split_on c (s @ c # t) = s # split_on c t"
  by (induction s) auto

lemma split_on_join:
  "ss \<noteq> [] \<Longrightarrow> (\<And>s. s \<in> set ss \<Longrightarrow> c \<notin> set s) \<Longrightarrow> split_on c (join_with c ss) = ss"
  by (induction c ss rule: join_with.induct) (auto simp: split_on_no_sep split_on_append)

lemma join_split: "join_with c (split_on c s) = s"
proof (induction s)
  case (Cons x s)
  obtain y ys where s: "split_on c s = y # ys" by (cases "split_on c s") auto
  then show ?case using Cons by (cases ys) auto
qed simp

subsection \<open>Hexadecimal\<close>

definition hex_value :: "char \<Rightarrow> nat option" where
  "hex_value c =
     (if 48 \<le> byte c \<and> byte c \<le> 57 then Some (byte c - 48)
      else if 97 \<le> byte c \<and> byte c \<le> 102 then Some (byte c - 87)
      else if 65 \<le> byte c \<and> byte c \<le> 70 then Some (byte c - 55)
      else None)"

text \<open>hex.DecodeString: an odd length or a byte that is no digit is an error.\<close>

fun hex_decode :: "string \<Rightarrow> nat list option" where
  "hex_decode [] = Some []"
| "hex_decode [x] = None"
| "hex_decode (x # y # s) =
     (case (hex_value x, hex_value y, hex_decode s) of
        (Some a, Some b, Some r) \<Rightarrow> Some ((16 * a + b) # r)
      | _ \<Rightarrow> None)"

definition hex_digit :: "nat \<Rightarrow> char" where
  "hex_digit n = ''0123456789abcdef'' ! n"

fun hex_encode :: "nat list \<Rightarrow> string" where
  "hex_encode [] = []"
| "hex_encode (b # bs) = hex_digit (b div 16) # hex_digit (b mod 16) # hex_encode bs"

lemma hex_decode_length: "hex_decode s = Some bs \<Longrightarrow> length s = 2 * length bs"
  by (induction s arbitrary: bs rule: hex_decode.induct)
    (auto split: option.splits prod.splits)

lemma hex_decode_digits:
  "hex_decode s \<noteq> None \<longleftrightarrow> even (length s) \<and> list_all (\<lambda>c. hex_value c \<noteq> None) s"
  by (induction s rule: hex_decode.induct) (auto split: option.splits)

lemma less_16_cases:
  assumes "(n::nat) < 16"
  shows "n \<in> {0,1,2,3,4,5,6,7,8,9,10,11,12,13,14,15}"
  using assms by simp presburger

lemma hex_value_digit: "n < 16 \<Longrightarrow> hex_value (hex_digit n) = Some n"
  by (drule less_16_cases) (auto simp: hex_digit_def hex_value_def)

lemma hex_decode_encode: "list_all (\<lambda>b. b < 256) bs \<Longrightarrow> hex_decode (hex_encode bs) = Some bs"
  by (induction bs) (auto simp: hex_value_digit)

lemma hex_encode_inject:
  "list_all (\<lambda>b. b < 256) as \<Longrightarrow> list_all (\<lambda>b. b < 256) bs \<Longrightarrow>
     hex_encode as = hex_encode bs \<longleftrightarrow> as = bs"
  by (metis hex_decode_encode option.inject)

lemma hex_value_ascii: "hex_value c \<noteq> None \<Longrightarrow> byte c < 128"
  by (auto simp: hex_value_def split: if_splits)

lemma hex_decode_ascii: "hex_decode s \<noteq> None \<Longrightarrow> ascii_string s"
  unfolding hex_decode_digits ascii_string_def list_all_iff by (blast intro: hex_value_ascii)

subsection \<open>Path segments of a URL\<close>

text \<open>url.PathEscape: every byte but the unreserved ones and \<open>$ & + : = @\<close> is escaped.\<close>

definition path_safe :: "char \<Rightarrow> bool" where
  "path_safe c =
     (48 \<le> byte c \<and> byte c \<le> 57 \<or> 65 \<le> byte c \<and> byte c \<le> 90 \<or> 97 \<le> byte c \<and> byte c \<le> 122
      \<or> c \<in> set ''-_.~$&+:=@'')"

definition upper_hex :: "nat \<Rightarrow> char" where
  "upper_hex n = ''0123456789ABCDEF'' ! n"

fun path_escape :: "string \<Rightarrow> string" where
  "path_escape [] = []"
| "path_escape (c # s) =
     (if path_safe c then c # path_escape s
      else CHR ''%'' # upper_hex (byte c div 16) # upper_hex (byte c mod 16) # path_escape s)"

fun path_unescape :: "string \<Rightarrow> string option" where
  "path_unescape [] = Some []"
| "path_unescape (c # s) =
     (if c = CHR ''%'' then
        (case s of
           a # b # t \<Rightarrow>
             (case (hex_value a, hex_value b, path_unescape t) of
                (Some x, Some y, Some r) \<Rightarrow> Some (char_of (16 * x + y) # r)
              | _ \<Rightarrow> None)
         | _ \<Rightarrow> None)
      else map_option ((#) c) (path_unescape s))"

lemma hex_value_upper: "n < 16 \<Longrightarrow> hex_value (upper_hex n) = Some n"
  by (drule less_16_cases) (auto simp: upper_hex_def hex_value_def)

lemma path_safe_percent [simp]: "\<not> path_safe (CHR ''%'')"
  by (simp add: path_safe_def)

lemma path_unescape_escape [simp]: "path_unescape (path_escape s) = Some s"
proof (induction s)
  case (Cons c s)
  have "16 * (byte c div 16) + byte c mod 16 = byte c" by simp
  with Cons show ?case by (auto simp: hex_value_upper nibbles)
qed simp

lemma path_escape_inject: "path_escape s = path_escape t \<longleftrightarrow> s = t"
  by (metis option.inject path_unescape_escape)

lemma upper_hex_not_slash: "n < 16 \<Longrightarrow> upper_hex n \<noteq> CHR ''/''"
  by (drule less_16_cases) (auto simp: upper_hex_def)

lemma path_escape_no_slash: "CHR ''/'' \<notin> set (path_escape s)"
proof (induction s)
  case (Cons c s)
  have "upper_hex (byte c div 16) \<noteq> CHR ''/''" "upper_hex (byte c mod 16) \<noteq> CHR ''/''"
    by (simp_all add: upper_hex_not_slash nibbles)
  with Cons show ?case by (auto simp: path_safe_def)
qed simp

end
