(* ===== verification/Go_Numbers.thy ===== *)
theory Go_Numbers
  imports Go_Strings
begin

section \<open>Machine integers, their text, and durations\<close>

text \<open>
  Go's int, int64 and time.Duration are 64-bit two's complement integers. They are
  modelled by \<^typ>\<open>int\<close> values in the range \<open>in_int64\<close>, and every sum or product that can
  leave the range goes through \<open>wrap64\<close>. This theory also holds the parts of packages
  strconv and time the sources use: decimal text, booleans, rounding of durations, and
  saturating differences of times. Times are nanoseconds since the Unix epoch.
\<close>

type_synonym int64 = int
type_synonym duration = int64
type_synonym time = int

definition int64_min :: int where "int64_min = - (2 ^ 63)"
definition int64_max :: int where "int64_max = 2 ^ 63 - 1"

definition in_int64 :: "int \<Rightarrow> bool" where
  "in_int64 i = (int64_min \<le> i \<and> i \<le> int64_max)"

definition wrap64 :: "int \<Rightarrow> int" where
  "wrap64 i = (i + 2 ^ 63) mod 2 ^ 64 - 2 ^ 63"

lemmas int64_defs = int64_min_def int64_max_def in_int64_def wrap64_def

lemma wrap64_in [bounds, simp]: "in_int64 (wrap64 i)"
proof -
  have "0 \<le> (i + 2 ^ 63) mod 2 ^ 64" "(i + 2 ^ 63) mod 2 ^ 64 < (2 ^ 64 :: int)"
    by simp_all
  then show ?thesis by (simp add: int64_defs)
qed

lemma wrap64_id [simp]: "in_int64 i \<Longrightarrow> wrap64 i = i"
  by (simp add: int64_defs mod_pos_pos_trivial)

lemma wrap64_over:
  assumes "int64_max < i" "i \<le> int64_max + 2 ^ 64"
  shows "wrap64 i = i - 2 ^ 64"
proof -
  have "(i + 2 ^ 63) mod 2 ^ 64 = (i + 2 ^ 63 - 2 ^ 64) mod 2 ^ 64"
    by (rule minus_mod_self2 [symmetric])
  also have "\<dots> = i + 2 ^ 63 - 2 ^ 64"
    using assms by (intro mod_pos_pos_trivial) (simp_all add: int64_max_def)
  finally show ?thesis by (simp add: wrap64_def)
qed

lemma wrap64_idem: "wrap64 (wrap64 i) = wrap64 i"
  by simp

subsection \<open>Truncating division\<close>

definition quot :: "int \<Rightarrow> int \<Rightarrow> int" where
  "quot a b = sgn a * sgn b * (\<bar>a\<bar> div \<bar>b\<bar>)"

definition rem :: "int \<Rightarrow> int \<Rightarrow> int" where
  "rem a b = a - b * quot a b"

lemma quot_nonneg: "0 \<le> a \<Longrightarrow> 0 < b \<Longrightarrow> quot a b = a div b"
  by (cases "a = 0") (simp_all add: quot_def)

lemma rem_nonneg: "0 \<le> a \<Longrightarrow> 0 < b \<Longrightarrow> rem a b = a mod b"
  by (simp add: rem_def quot_nonneg minus_mult_div_eq_mod)

subsection \<open>Decimal text\<close>

definition digit_char :: "nat \<Rightarrow> char" where
  "digit_char d = ''0123456789'' ! d"

definition digit_value :: "char \<Rightarrow> nat option" where
  "digit_value c = (if 48 \<le> byte c \<and> byte c \<le> 57 then Some (byte c - 48) else None)"

fun nat_text :: "nat \<Rightarrow> string" where
  "nat_text n =
     (if n < 10 then [digit_char n] else nat_text (n div 10) @ [digit_char (n mod 10)])"

declare nat_text.simps [simp del]

text \<open>strconv.Itoa, and strconv.FormatInt to base ten.\<close>

definition format_int :: "int \<Rightarrow> string" where
  "format_int i = (if i < 0 then CHR ''-'' # nat_text (nat (- i)) else nat_text (nat i))"

fun digits_value :: "nat \<Rightarrow> string \<Rightarrow> nat option" where
  "digits_value acc [] = Some acc"
| "digits_value acc (c # s) =
     (case digit_value c of None \<Rightarrow> None | Some d \<Rightarrow> digits_value (10 * acc + d) s)"

text \<open>
  strconv.ParseInt to base ten and 64 bits, and strconv.Atoi: an optional sign, at least
  one digit, nothing else, and a value in range. The two kinds of error are not told apart
  by any caller, so both are \<open>None\<close>.
\<close>

definition parse_digits :: "string \<Rightarrow> nat option" where
  "parse_digits s = (if s = [] then None else digits_value 0 s)"

definition parse_int :: "string \<Rightarrow> int64 option" where
  "parse_int s =
     (case s of
        [] \<Rightarrow> None
      | c # r \<Rightarrow>
         (case parse_digits (if c = CHR ''-'' \<or> c = CHR ''+'' then r else s) of
            None \<Rightarrow> None
          | Some n \<Rightarrow>
              (let i = (if c = CHR ''-'' then - int n else int n)
               in if in_int64 i then Some i else None)))"

lemma parse_int_in_int64 [bounds]: "parse_int s = Some i \<Longrightarrow> in_int64 i"
  by (auto simp: parse_int_def Let_def split: list.splits option.splits if_splits)

lemma less_10_cases:
  assumes "(n::nat) < 10"
  shows "n \<in> {0,1,2,3,4,5,6,7,8,9}"
  using assms by simp presburger

lemma digit_value_char [simp]: "d < 10 \<Longrightarrow> digit_value (digit_char d) = Some d"
  by (drule less_10_cases) (auto simp: digit_char_def digit_value_def)

lemma digit_char_props:
  "d < 10 \<Longrightarrow> digit_char d \<noteq> CHR ''-'' \<and> digit_char d \<noteq> CHR ''+'' \<and> digit_char d \<noteq> CHR ''/''"
  by (drule less_10_cases) (auto simp: digit_char_def)

lemma digits_value_append:
  "digits_value acc (s @ t) =
     (case digits_value acc s of None \<Rightarrow> None | Some a \<Rightarrow> digits_value a t)"
  by (induction s arbitrary: acc) (auto split: option.splits)

lemma digits_value_text: "digits_value 0 (nat_text n) = Some n"
proof (induction n rule: nat_text.induct)
  case (1 n)
  show ?case
  proof (cases "n < 10")
    case False
    then show ?thesis
      using "1" by (subst nat_text.simps) (simp add: digits_value_append)
  qed (simp add: nat_text.simps)
qed

lemma nat_text_nonempty [simp]: "nat_text n \<noteq> []"
  by (subst nat_text.simps) simp

lemma nat_text_digits: "c \<in> set (nat_text n) \<Longrightarrow> \<exists>d < 10. c = digit_char d"
proof (induction n rule: nat_text.induct)
  case (1 n)
  show ?case
  proof (cases "n < 10")
    case True
    with "1.prems" show ?thesis by (auto simp: nat_text.simps)
  next
    case False
    with "1.prems" have "c \<in> set (nat_text (n div 10)) \<or> c = digit_char (n mod 10)"
      by (auto simp: nat_text.simps [of n])
    moreover have "n mod 10 < 10" by simp
    ultimately show ?thesis using "1.IH" False by blast
  qed
qed

lemma nat_text_no_slash: "CHR ''/'' \<notin> set (nat_text n)"
  using nat_text_digits digit_char_props by metis

lemma format_int_no_slash: "CHR ''/'' \<notin> set (format_int i)"
  by (simp add: format_int_def nat_text_no_slash)

lemma parse_format_int: "in_int64 i \<Longrightarrow> parse_int (format_int i) = Some i"
proof -
  assume i: "in_int64 i"
  have dig: "\<And>n. parse_digits (nat_text n) = Some n"
    by (simp add: parse_digits_def digits_value_text)
  obtain c r where cr: "nat_text (nat i) = c # r" by (cases "nat_text (nat i)") auto
  then have "c \<in> set (nat_text (nat i))" by simp
  then have "c \<noteq> CHR ''-''" "c \<noteq> CHR ''+''"
    using nat_text_digits digit_char_props by metis+
  with i cr dig [of "nat i"] dig [of "nat (- i)"] show ?thesis
    by (auto simp: parse_int_def format_int_def Let_def)
qed

lemma format_int_inject:
  "in_int64 i \<Longrightarrow> in_int64 j \<Longrightarrow> format_int i = format_int j \<longleftrightarrow> i = j"
  by (metis option.inject parse_format_int)

lemma format_int_nonempty [simp]: "format_int i \<noteq> []"
  by (simp add: format_int_def)

text \<open>strconv.ParseBool.\<close>

definition parse_bool :: "string \<Rightarrow> bool option" where
  "parse_bool s =
     (if s \<in> set [''1'', ''t'', ''T'', ''true'', ''TRUE'', ''True''] then Some True
      else if s \<in> set [''0'', ''f'', ''F'', ''false'', ''FALSE'', ''False''] then Some False
      else None)"

subsection \<open>Durations and times\<close>

definition second :: duration where "second = 1000000000"
definition minute :: duration where "minute = 60 * second"
definition hour :: duration where "hour = 60 * minute"

lemmas duration_units = second_def minute_def hour_def

definition less_than_half :: "int \<Rightarrow> int \<Rightarrow> bool" where
  "less_than_half x y = ((x mod 2 ^ 64 + x mod 2 ^ 64) mod 2 ^ 64 < y mod 2 ^ 64)"

text \<open>Duration.Round: to the nearest multiple of \<open>m\<close>, halves away from zero, saturating.\<close>

definition round_duration :: "duration \<Rightarrow> duration \<Rightarrow> duration" where
  "round_duration d m =
     (if m \<le> 0 then d
      else
        let r = rem d m in
        if d < 0 then
          if less_than_half (- r) m then d - r
          else (let d1 = wrap64 (d - m - r) in if d1 < d then d1 else int64_min)
        else if less_than_half r m then d - r
        else (let d1 = wrap64 (d + m - r) in if d < d1 then d1 else int64_max))"

lemma less_than_half_iff:
  assumes "0 \<le> x" "x < y" "y \<le> int64_max"
  shows "less_than_half x y \<longleftrightarrow> 2 * x < y"
  using assms by (simp add: less_than_half_def int64_defs mod_pos_pos_trivial)

text \<open>Whole seconds of a rounded duration, as written in a Retry-After header.\<close>

text \<open>Rounding up past the greatest duration saturates.\<close>

lemma round_seconds_saturates:
  assumes "0 < d" "in_int64 d" and sat: "second \<le> 2 * (d mod second)" "\<not> in_int64 (d + second - d mod second)"
  shows "quot (round_duration d second) second = 9223372036 \<and> int64_max - second < d"
proof -
  let ?r = "d mod second"
  have s: "0 < second" "second \<le> int64_max" by (simp_all add: second_def int64_defs)
  have r: "0 \<le> ?r" "?r < second" using s by simp_all
  have rem: "rem d second = ?r" using assms s by (simp add: rem_nonneg)
  have big: "int64_max - second < d" using sat assms(2) r by (auto simp: in_int64_def int64_min_def)
  have "int64_min \<le> d + second - ?r" "d + second - ?r \<le> int64_max + int64_max"
    using assms(1,2) r s unfolding in_int64_def int64_min_def by linarith+
  then have "int64_max < d + second - ?r" "d + second - ?r \<le> int64_max + 2 ^ 64"
    using sat(2) by (simp_all add: in_int64_def int64_max_def)
  then have "wrap64 (d + second - ?r) = d + second - ?r - 2 ^ 64"
    by (rule wrap64_over)
  then have "quot (round_duration d second) second = quot int64_max second"
    using sat assms(1,2) s r rem
    by (simp add: round_duration_def less_than_half_iff int64_defs second_def)
  then have "quot (round_duration d second) second = 9223372036"
    by (simp add: quot_nonneg int64_defs second_def)
  with big show ?thesis by simp
qed

lemma round_seconds_bounds:
  assumes "0 < d" "in_int64 d"
  defines "q \<equiv> quot (round_duration d second) second"
  shows "2 * second * q \<le> 2 * d + second \<and> (2 * d < 2 * second * q + second \<or> int64_max - second < d)"
    and "0 \<le> q \<and> q \<le> 9223372036"
proof -
  let ?r = "d mod second"
  have s: "0 < second" "second \<le> int64_max" by (simp_all add: second_def int64_defs)
  have r: "0 \<le> ?r" "?r < second" using s by simp_all
  have rem: "rem d second = ?r" using assms s by (simp add: rem_nonneg)
  have dr: "d - ?r = second * (d div second)" by (simp add: minus_mod_eq_mult_div)
  have q_of: "quot (second * k) second = k" if "0 \<le> k" for k
    using that s by (simp add: quot_nonneg)
  have dd: "0 \<le> d div second" using assms s by (simp add: pos_imp_zdiv_nonneg_iff)
  consider (down) "2 * ?r < second" | (up) "second \<le> 2 * ?r" "in_int64 (d + second - ?r)"
    | (sat) "second \<le> 2 * ?r" "\<not> in_int64 (d + second - ?r)" by linarith
  then have "2 * second * q \<le> 2 * d + second \<and> (2 * d < 2 * second * q + second \<or> int64_max - second < d)
    \<and> 0 \<le> q \<and> q \<le> 9223372036"
  proof cases
    case down
    then have "q = d div second"
      using assms s r rem dr dd by (simp add: round_duration_def less_than_half_iff q_of)
    moreover have "2 * d < 2 * second * (d div second) + second"
      using down dr by linarith
    moreover have "d div second \<le> 9223372036" "2 * second * (d div second) \<le> 2 * d + second"
      using assms by (simp_all add: second_def int64_defs)
    ultimately show ?thesis using dd by simp
  next
    case up
    have e: "d + second - ?r = second * (d div second + 1)" using dr by (simp add: algebra_simps)
    have "wrap64 (d + second - ?r) = second * (d div second + 1)" using up e by simp
    moreover have "d < d + second - ?r" using r by simp
    ultimately have "q = d div second + 1"
      using up assms s r rem dd e
      by (simp add: round_duration_def less_than_half_iff q_of del: mult_cancel_left)
    moreover have "2 * second * (d div second + 1) \<le> 2 * d + second"
      "2 * d < 2 * second * (d div second + 1) + second"
      using up(1) dr r by (simp_all add: distrib_left)
    moreover have "second * (d div second + 1) \<le> int64_max"
      using up(2) e by (simp add: in_int64_def)
    then have "d div second + 1 \<le> 9223372036"
      by (simp add: second_def int64_defs)
    ultimately show ?thesis using dd by simp
  next
    case sat
    then have "q = 9223372036" "int64_max - second < d"
      using round_seconds_saturates [OF assms(1,2)] by (simp_all add: q_def)
    then show ?thesis using assms by (auto simp: second_def int64_defs)
  qed
  then show "2 * second * q \<le> 2 * d + second \<and> (2 * d < 2 * second * q + second \<or> int64_max - second < d)"
    and "0 \<le> q \<and> q \<le> 9223372036" by simp_all
qed

lemma round_whole_seconds:
  "in_int64 (n * second) \<Longrightarrow> 0 \<le> n \<Longrightarrow> quot (round_duration (n * second) second) second = n"
  by (simp add: round_duration_def less_than_half_def rem_nonneg quot_nonneg second_def)

text \<open>
  time.Unix(sec, 0): the internal count of seconds starts at year 1 and is a 64-bit sum.
  The difference of two times saturates.
\<close>

definition unix_seconds :: "int64 \<Rightarrow> time" where
  "unix_seconds sec = (wrap64 (sec + 62135596800) - 62135596800) * second"

definition time_sub :: "time \<Rightarrow> time \<Rightarrow> duration" where
  "time_sub t u = max int64_min (min int64_max (t - u))"

lemma time_sub_in [bounds]: "in_int64 (time_sub t u)"
  by (auto simp: time_sub_def int64_defs)

lemma time_sub_pos: "0 < time_sub t u \<longleftrightarrow> u < t"
  by (auto simp: time_sub_def int64_defs)

end
