(* ===== verification/Go_Errors.thy ===== *)
theory Go_Errors
  imports Go_Numbers
begin

section \<open>Error values and the library functions left open\<close>

text \<open>
  Go's error values are chains: an error may wrap another one, \<open>errors.Is\<close> and
  \<open>errors.As\<close> search the chain. \<open>err\<close> has a constructor for every sentinel the program
  declares (packages forge, storage and lfs), for its one error type with fields, for a
  plain message, for a message that wraps an error, and for an error of a library. The
  text of a library error is a parameter (\<open>lib_error_text\<close>).
\<close>

datatype lib_error =
    EOF
  | MaxBytesError
  | Failed (failed_function: string) (failed_input: string)

datatype err =
    ErrUnauthenticated
  | ErrForgeNotFound
  | ErrForbidden
  | ErrRateLimited
  | ErrForgeUnavailable
  | ErrStorageNotFound
  | ErrStorageUnavailable
  | ErrUnsupportedMediaType
  | RetryAfterError err duration
  | Message string
  | Wrapped string err
  | Library lib_error

fun unwrap :: "err \<Rightarrow> err option" where
  "unwrap (RetryAfterError e d) = Some e"
| "unwrap (Wrapped p e) = Some e"
| "unwrap _ = None"

fun chain :: "err \<Rightarrow> err list" where
  "chain (RetryAfterError e d) = RetryAfterError e d # chain e"
| "chain (Wrapped p e) = Wrapped p e # chain e"
| "chain e = [e]"

definition errors_is :: "err \<Rightarrow> err \<Rightarrow> bool" where
  "errors_is e target = (target \<in> set (chain e))"

fun errors_as_retry :: "err \<Rightarrow> duration option" where
  "errors_as_retry (RetryAfterError e d) = Some d"
| "errors_as_retry (Wrapped p e) = errors_as_retry e"
| "errors_as_retry _ = None"

definition errors_as_max_bytes :: "err \<Rightarrow> bool" where
  "errors_as_max_bytes e = (Library MaxBytesError \<in> set (chain e))"

fun err_text :: "(lib_error \<Rightarrow> string) \<Rightarrow> err \<Rightarrow> string" where
  "err_text lt ErrUnauthenticated = ''forge: unauthenticated''"
| "err_text lt ErrForgeNotFound = ''forge: repository not found''"
| "err_text lt ErrForbidden = ''forge: forbidden''"
| "err_text lt ErrRateLimited = ''forge: rate limited''"
| "err_text lt ErrForgeUnavailable = ''forge: unavailable''"
| "err_text lt ErrStorageNotFound = ''storage: object not found''"
| "err_text lt ErrStorageUnavailable = ''storage: unavailable''"
| "err_text lt ErrUnsupportedMediaType = ''Content-Type must be application/vnd.git-lfs+json''"
| "err_text lt (RetryAfterError e d) = err_text lt e"
| "err_text lt (Message m) = m"
| "err_text lt (Wrapped p e) = p @ '': '' @ err_text lt e"
| "err_text lt (Library l) = lt l"

text \<open>The chain is what repeated unwrapping visits, and the error itself comes first.\<close>

lemma chain_unwrap:
  "chain e = e # (case unwrap e of None \<Rightarrow> [] | Some e' \<Rightarrow> chain e')"
  by (cases e) auto

lemma hd_chain [simp]: "hd (chain e) = e"
  by (cases e) auto

lemma errors_is_refl [simp]: "errors_is e e"
  by (simp add: errors_is_def chain_unwrap [of e])

lemma errors_is_wrapped [simp]:
  "errors_is (Wrapped p e) t \<longleftrightarrow> t = Wrapped p e \<or> errors_is e t"
  "errors_is (RetryAfterError e d) t \<longleftrightarrow> t = RetryAfterError e d \<or> errors_is e t"
  "errors_is (Message m) t \<longleftrightarrow> t = Message m"
  "errors_is (Library l) t \<longleftrightarrow> t = Library l"
  by (auto simp: errors_is_def)

lemma errors_is_sentinel [simp]:
  "errors_is ErrUnauthenticated t \<longleftrightarrow> t = ErrUnauthenticated"
  "errors_is ErrForgeNotFound t \<longleftrightarrow> t = ErrForgeNotFound"
  "errors_is ErrForbidden t \<longleftrightarrow> t = ErrForbidden"
  "errors_is ErrRateLimited t \<longleftrightarrow> t = ErrRateLimited"
  "errors_is ErrForgeUnavailable t \<longleftrightarrow> t = ErrForgeUnavailable"
  "errors_is ErrStorageNotFound t \<longleftrightarrow> t = ErrStorageNotFound"
  "errors_is ErrStorageUnavailable t \<longleftrightarrow> t = ErrStorageUnavailable"
  "errors_is ErrUnsupportedMediaType t \<longleftrightarrow> t = ErrUnsupportedMediaType"
  by (auto simp: errors_is_def)

lemma errors_as_max_bytes_simps [simp]:
  "errors_as_max_bytes (Wrapped p e) = errors_as_max_bytes e"
  "errors_as_max_bytes (RetryAfterError e d) = errors_as_max_bytes e"
  "errors_as_max_bytes (Library l) = (l = MaxBytesError)"
  "\<not> errors_as_max_bytes (Message m)"
  "\<not> errors_as_max_bytes ErrUnsupportedMediaType"
  by (auto simp: errors_as_max_bytes_def)

lemma errors_as_retry_is: "errors_as_retry e = Some d \<Longrightarrow> \<exists>e'. errors_is e (RetryAfterError e' d)"
  by (induction e rule: errors_as_retry.induct) auto

subsection \<open>The library functions that are parameters of the model\<close>

record golib =
  unicode_lower :: "string \<Rightarrow> string"      \<comment> \<open>strings.ToLower on strings that are not ASCII\<close>
  quoted :: "string \<Rightarrow> string"             \<comment> \<open>strconv.Quote, the verb q of fmt\<close>
  lib_error_text :: "lib_error \<Rightarrow> string"   \<comment> \<open>text of library errors\<close>
  hmac_sha256 :: "string \<Rightarrow> string \<Rightarrow> string" \<comment> \<open>key and message to the 32-byte MAC\<close>
  ipv6_address :: "string \<Rightarrow> bool"         \<comment> \<open>netip.ParseAddr accepts it, and not as IPv4\<close>

abbreviation ToLower :: "golib \<Rightarrow> string \<Rightarrow> string" where
  "ToLower g \<equiv> to_lower (unicode_lower g)"

end
