(* ===== verification/Forge.thy ===== *)
theory Forge
  imports Go_Errors
begin

section \<open>Package forge: the authorization boundary\<close>

text \<open>
  \<^verbatim>\<open>internal/forge/forge.go\<close>. The permissions are an ordered enumeration (a uint8 counted by
  iota), so the comparisons of the handler are comparisons of \<^verbatim>\<open>Permission\<close> values. The
  error values of the package are constructors of \<open>err\<close>.
\<close>

datatype Permission = PermissionNone | PermissionRead | PermissionWrite

fun permission_value :: "Permission \<Rightarrow> nat" where
  "permission_value PermissionNone = 0"
| "permission_value PermissionRead = 1"
| "permission_value PermissionWrite = 2"

lemma permission_value_inject [simp]: "permission_value p = permission_value q \<longleftrightarrow> p = q"
  by (cases p; cases q) simp_all

instantiation Permission :: linorder
begin

definition less_eq_Permission :: "Permission \<Rightarrow> Permission \<Rightarrow> bool" where
  "less_eq_Permission p q = (permission_value p \<le> permission_value q)"

definition less_Permission :: "Permission \<Rightarrow> Permission \<Rightarrow> bool" where
  "less_Permission p q = (permission_value p < permission_value q)"

instance
  by standard (auto simp: less_eq_Permission_def less_Permission_def)

end

lemma permission_order [simp]:
  "PermissionNone < PermissionRead" "PermissionRead < PermissionWrite"
  "PermissionNone < PermissionWrite" "\<not> p < PermissionNone" "PermissionNone \<le> p"
  "p \<le> PermissionWrite" "\<not> PermissionWrite < p"
  by (cases p; simp add: less_Permission_def less_eq_Permission_def)+

lemma below_read [simp]: "p < PermissionRead \<longleftrightarrow> p = PermissionNone"
  by (cases p) (simp_all add: less_Permission_def)

lemma below_write [simp]: "p < PermissionWrite \<longleftrightarrow> p \<noteq> PermissionWrite"
  by (cases p) (simp_all add: less_Permission_def)

record Authorization =
  RepositoryID :: int64
  Permission :: Permission
  CanonicalName :: string

text \<open>
  The contract of an Authorizer, as far as a client can see it: it fails closed, so a
  success names a repository and rests on a token of the accepted class. \<open>'w\<close> is the
  state of the world the implementation consults.
\<close>

locale authorizer =
  fixes authorize :: "string \<Rightarrow> string \<Rightarrow> string \<Rightarrow> 'w \<Rightarrow> (err, Authorization) result \<times> 'w"
    and accepted_token :: "string \<Rightarrow> bool"
  assumes positive_id: "authorize owner repo token w = (Inr a, w') \<Longrightarrow> 0 < RepositoryID a"
    and named: "authorize owner repo token w = (Inr a, w') \<Longrightarrow> CanonicalName a \<noteq> []"
    and token_class: "authorize owner repo token w = (Inr a, w') \<Longrightarrow> accepted_token token"
    and rejected: "\<not> accepted_token token \<Longrightarrow> authorize owner repo token w = (Inl ErrUnauthenticated, w)"
begin

lemma success_iff_authorized:
  "is_ok (fst (authorize owner repo token w)) \<Longrightarrow> accepted_token token"
  by (cases "authorize owner repo token w") (auto simp: is_ok_def token_class split: sum.splits)

end

end
