(* ===== verification/Auth_Cache.thy ===== *)
theory Auth_Cache
  imports Forge
begin

section \<open>Package authcache: the bounded authorization cache\<close>

text \<open>
  \<^verbatim>\<open>internal/authcache/cache.go\<close>. The cache is a map from keys to list elements and a
  doubly linked list of the same elements in order of recency. Elements are shared between
  the two, so the model keeps them in a store: an element is a number, \<open>elements\<close> gives
  its entry, \<open>items\<close> is the map and \<open>lru\<close> the list from front to back. Every operation
  runs under the mutex and reads the clock at most once, so it is a function of the cache
  and of the time \<open>now\<close> it reads; any concurrent use is a sequence of these functions.

  The abstract specification is a list of entries, most recent first. The refinement
  lemmas show that the operations on the shared representation implement the operations on
  that list, and the locale \<open>auth_cache\<close> states what a client may rely on.
\<close>

subsection \<open>State and operations\<close>

record entry =
  ent_key :: string
  ent_value :: Authorization
  ent_expiresAt :: time

record Cache =
  secret :: string
  ttl :: duration
  capacity :: int
  items :: "string \<rightharpoonup> nat"
  lru :: "nat list"
  elements :: "nat \<Rightarrow> entry"
  next_element :: nat

definition zero_entry :: entry where
  "zero_entry = \<lparr>ent_key = [], ent_value = \<lparr>RepositoryID = 0, Permission = PermissionNone,
     CanonicalName = []\<rparr>, ent_expiresAt = 0\<rparr>"

definition newWithClock :: "int \<Rightarrow> duration \<Rightarrow> string \<Rightarrow> Cache" where
  "newWithClock cap life s = \<lparr>secret = s, ttl = life, capacity = cap, items = Map.empty,
     lru = [], elements = (\<lambda>_. zero_entry), next_element = 0\<rparr>"

text \<open>\<open>random\<close> is what the system's random source returns for 32 bytes, if it succeeds.\<close>

definition cache_New :: "int \<Rightarrow> duration \<Rightarrow> string option \<Rightarrow> (err, Cache) result" where
  "cache_New cap life random =
     (if cap \<le> 0 \<or> life \<le> 0 then Inl (Message ''cache capacity and TTL must be positive'')
      else case random of
        None \<Rightarrow> Inl (Wrapped ''generate authorization cache secret'' (Library (Failed ''rand.Read'' [])))
      | Some s \<Rightarrow> Inr (newWithClock cap life s))"

definition mac_message :: "golib \<Rightarrow> string \<Rightarrow> string \<Rightarrow> string \<Rightarrow> string" where
  "mac_message g token owner repository =
     token @ [char_of (0::nat)] @ ToLower g owner @ ''/'' @ ToLower g repository"

definition cache_key :: "golib \<Rightarrow> string \<Rightarrow> string \<Rightarrow> string \<Rightarrow> string \<Rightarrow> string" where
  "cache_key g s token owner repository =
     hex_encode (map of_char (hmac_sha256 g s (mac_message g token owner repository)))"

definition remove_element :: "Cache \<Rightarrow> nat \<Rightarrow> Cache" where
  "remove_element c e = c\<lparr>items := (items c)(ent_key (elements c e) := None),
     lru := remove1 e (lru c)\<rparr>"

definition move_to_front :: "Cache \<Rightarrow> nat \<Rightarrow> Cache" where
  "move_to_front c e = c\<lparr>lru := e # remove1 e (lru c)\<rparr>"

definition cache_Get ::
    "golib \<Rightarrow> Cache \<Rightarrow> time \<Rightarrow> string \<Rightarrow> string \<Rightarrow> string \<Rightarrow> Authorization option \<times> Cache" where
  "cache_Get g c now token owner repository =
     (case items c (cache_key g (secret c) token owner repository) of
        None \<Rightarrow> (None, c)
      | Some e \<Rightarrow>
          (let item = elements c e in
           if \<not> now < ent_expiresAt item then (None, remove_element c e)
           else (Some (ent_value item), move_to_front c e)))"

definition cache_Put ::
    "golib \<Rightarrow> Cache \<Rightarrow> time \<Rightarrow> string \<Rightarrow> string \<Rightarrow> string \<Rightarrow> Authorization \<Rightarrow> Cache" where
  "cache_Put g c now token owner repository value =
     (let k = cache_key g (secret c) token owner repository in
      case items c k of
        Some e \<Rightarrow>
          move_to_front
            (c\<lparr>elements := (elements c)(e := (elements c e)
                 \<lparr>ent_value := value, ent_expiresAt := now + ttl c\<rparr>)\<rparr>) e
      | None \<Rightarrow>
          (let e = next_element c;
               c1 = c\<lparr>elements := (elements c)
                        (e := \<lparr>ent_key = k, ent_value = value, ent_expiresAt = now + ttl c\<rparr>),
                      lru := e # lru c, items := (items c)(k \<mapsto> e), next_element := Suc e\<rparr>
           in if capacity c1 < int (length (lru c1)) then remove_element c1 (last (lru c1)) else c1))"

subsection \<open>Invariant and abstraction\<close>

definition cache_inv :: "Cache \<Rightarrow> bool" where
  "cache_inv c \<longleftrightarrow>
     distinct (lru c) \<and> 0 < capacity c \<and> int (length (lru c)) \<le> capacity c
     \<and> (\<forall>e \<in> set (lru c). e < next_element c)
     \<and> (\<forall>k e. items c k = Some e \<longleftrightarrow> e \<in> set (lru c) \<and> ent_key (elements c e) = k)"

definition entries :: "Cache \<Rightarrow> entry list" where
  "entries c = map (elements c) (lru c)"

definition drop_key :: "string \<Rightarrow> entry list \<Rightarrow> entry list" where
  "drop_key k es = filter (\<lambda>x. ent_key x \<noteq> k) es"

definition lookup_key :: "string \<Rightarrow> entry list \<Rightarrow> entry option" where
  "lookup_key k es = find (\<lambda>x. ent_key x = k) es"

definition spec_get :: "time \<Rightarrow> string \<Rightarrow> entry list \<Rightarrow> Authorization option \<times> entry list" where
  "spec_get now k es =
     (case lookup_key k es of
        None \<Rightarrow> (None, es)
      | Some x \<Rightarrow>
          if now < ent_expiresAt x then (Some (ent_value x), x # drop_key k es)
          else (None, drop_key k es))"

definition spec_put :: "int \<Rightarrow> time \<Rightarrow> string \<Rightarrow> Authorization \<Rightarrow> entry list \<Rightarrow> entry list" where
  "spec_put cap expires k v es =
     take (nat cap) (\<lparr>ent_key = k, ent_value = v, ent_expiresAt = expires\<rparr> # drop_key k es)"

lemma cache_invD:
  assumes "cache_inv c"
  shows "distinct (lru c)" "0 < capacity c" "int (length (lru c)) \<le> capacity c"
    "e \<in> set (lru c) \<Longrightarrow> e < next_element c"
    "items c k = Some e \<longleftrightarrow> e \<in> set (lru c) \<and> ent_key (elements c e) = k"
  using assms by (auto simp: cache_inv_def)

lemma cache_inv_key_inj:
  "cache_inv c \<Longrightarrow> d \<in> set (lru c) \<Longrightarrow> e \<in> set (lru c) \<Longrightarrow>
     ent_key (elements c d) = ent_key (elements c e) \<longleftrightarrow> d = e"
  by (metis cache_invD(5) option.inject)

lemma distinct_keys_entries: "cache_inv c \<Longrightarrow> distinct (map ent_key (entries c))"
  by (auto simp: entries_def distinct_map inj_on_def cache_invD(1) cache_inv_key_inj)

lemma lookup_items:
  assumes "cache_inv c"
  shows "lookup_key k (entries c) = map_option (elements c) (items c k)"
proof (cases "items c k")
  case None
  then have "\<forall>e \<in> set (lru c). ent_key (elements c e) \<noteq> k"
    using cache_invD(5) [OF assms, of k] by auto
  then show ?thesis using None by (simp add: lookup_key_def entries_def find_None_iff)
next
  case (Some e)
  then have e: "e \<in> set (lru c)" "ent_key (elements c e) = k"
    using cache_invD(5) [OF assms] by auto
  then obtain x where x: "lookup_key k (entries c) = Some x"
    by (cases "lookup_key k (entries c)") (auto simp: lookup_key_def entries_def find_None_iff)
  then obtain d where "d \<in> set (lru c)" "ent_key (elements c d) = k" "x = elements c d"
    unfolding lookup_key_def entries_def by (auto dest!: find_SomeD)
  with e have "d = e" using cache_inv_key_inj [OF assms] by metis
  with x Some \<open>x = elements c d\<close> show ?thesis by simp
qed

lemma drop_key_entries:
  assumes "cache_inv c" "e \<in> set (lru c)"
  shows "drop_key (ent_key (elements c e)) (entries c) = map (elements c) (remove1 e (lru c))"
proof -
  have "remove1 e (lru c) = filter (\<lambda>d. d \<noteq> e) (lru c)"
    using cache_invD(1) [OF assms(1)] by (simp add: distinct_remove1_removeAll removeAll_filter_not_eq
        eq_commute [of e])
  moreover have "filter (\<lambda>d. ent_key (elements c d) \<noteq> ent_key (elements c e)) (lru c)
      = filter (\<lambda>d. d \<noteq> e) (lru c)"
    using cache_inv_key_inj [OF assms(1) _ assms(2)] by (intro filter_cong) auto
  ultimately show ?thesis by (simp add: drop_key_def entries_def filter_map o_def)
qed

subsection \<open>The operations keep the invariant and implement the specification\<close>

lemma cache_inv_newWithClock [preserves]: "0 < cap \<Longrightarrow> cache_inv (newWithClock cap life s)"
  by (simp add: cache_inv_def newWithClock_def)

lemma cache_inv_remove [preserves]:
  assumes "cache_inv c" "e \<in> set (lru c)"
  shows "cache_inv (remove_element c e)"
proof -
  have "length (remove1 e (lru c)) \<le> length (lru c)" by (simp add: length_remove1)
  with assms cache_inv_key_inj [OF assms(1) _ assms(2)] show ?thesis
    by (auto simp: cache_inv_def remove_element_def set_remove1_eq)
qed

lemma cache_inv_move [preserves]:
  "cache_inv c \<Longrightarrow> e \<in> set (lru c) \<Longrightarrow> cache_inv (move_to_front c e)"
  by (auto simp: cache_inv_def move_to_front_def length_remove1 set_remove1_eq
      dest: length_pos_if_in_set)

lemma cache_inv_set_value [preserves]:
  "cache_inv c \<Longrightarrow> cache_inv (c\<lparr>elements := (elements c)(e := (elements c e)
     \<lparr>ent_value := v, ent_expiresAt := x\<rparr>)\<rparr>)"
  by (simp add: cache_inv_def)

lemma entries_remove:
  "cache_inv c \<Longrightarrow> e \<in> set (lru c) \<Longrightarrow>
     entries (remove_element c e) = drop_key (ent_key (elements c e)) (entries c)"
  by (simp add: drop_key_entries) (simp add: entries_def remove_element_def)

lemma entries_move:
  "cache_inv c \<Longrightarrow> e \<in> set (lru c) \<Longrightarrow>
     entries (move_to_front c e) = elements c e # drop_key (ent_key (elements c e)) (entries c)"
  by (simp add: drop_key_entries) (simp add: entries_def move_to_front_def)

lemma cache_Get_inv [preserves]:
  "cache_inv c \<Longrightarrow> cache_inv (snd (cache_Get g c now t ow r))"
  by (auto simp: cache_Get_def Let_def cache_invD(5) split: option.splits intro!: preserves)

lemma cache_Get_refines:
  fixes g :: golib and t ow r :: string
  assumes "cache_inv c"
  defines "k \<equiv> cache_key g (secret c) t ow r"
  shows "fst (cache_Get g c now t ow r) = fst (spec_get now k (entries c))"
    and "entries (snd (cache_Get g c now t ow r)) = snd (spec_get now k (entries c))"
proof -
  note look = lookup_items [OF assms(1), of k]
  show "fst (cache_Get g c now t ow r) = fst (spec_get now k (entries c))"
    using look by (auto simp: cache_Get_def spec_get_def k_def Let_def split: option.splits)
  show "entries (snd (cache_Get g c now t ow r)) = snd (spec_get now k (entries c))"
  proof (cases "items c k")
    case None
    then show ?thesis using look by (simp add: cache_Get_def spec_get_def k_def)
  next
    case (Some e)
    then have "e \<in> set (lru c)" "ent_key (elements c e) = k"
      using cache_invD(5) [OF assms(1)] by auto
    then show ?thesis
      using look Some entries_remove [OF assms(1)] entries_move [OF assms(1)]
      by (auto simp: cache_Get_def spec_get_def k_def [symmetric] Let_def)
  qed
qed

lemma cache_Get_frame [simp]:
  "secret (snd (cache_Get g c now t ow r)) = secret c"
  "ttl (snd (cache_Get g c now t ow r)) = ttl c"
  "capacity (snd (cache_Get g c now t ow r)) = capacity c"
  by (simp_all add: cache_Get_def remove_element_def move_to_front_def Let_def split: option.splits)

lemma cache_Put_frame [simp]:
  "secret (cache_Put g c now t ow r v) = secret c"
  "ttl (cache_Put g c now t ow r v) = ttl c"
  "capacity (cache_Put g c now t ow r v) = capacity c"
  by (simp_all add: cache_Put_def remove_element_def move_to_front_def Let_def split: option.splits)

text \<open>
  The branch of Put that adds an element, before any eviction: the list may be one longer
  than the capacity, all else of the invariant holds.
\<close>

definition add_element :: "Cache \<Rightarrow> entry \<Rightarrow> Cache" where
  "add_element c x = c\<lparr>elements := (elements c)(next_element c := x),
     lru := next_element c # lru c, items := (items c)(ent_key x \<mapsto> next_element c),
     next_element := Suc (next_element c)\<rparr>"

lemma add_element_inv:
  assumes "cache_inv c" "items c (ent_key x) = None"
  shows "cache_inv (add_element c x\<lparr>capacity := capacity c + 1\<rparr>)"
proof -
  have new: "next_element c \<notin> set (lru c)" using cache_invD(4) [OF assms(1)] by blast
  have "\<forall>e \<in> set (lru c). ent_key (elements c e) \<noteq> ent_key x"
    using assms cache_invD(5) [OF assms(1)] by (metis option.distinct(1))
  with new assms(1) show ?thesis
    by (auto simp: cache_inv_def add_element_def less_Suc_eq)
qed

lemma entries_add_element:
  assumes "cache_inv c" "items c (ent_key x) = None"
  shows "entries (add_element c x) = x # entries c"
proof -
  have new: "next_element c \<notin> set (lru c)" using cache_invD(4) [OF assms(1)] by blast
  then show ?thesis by (auto simp: entries_def add_element_def)
qed

lemma evict_last:
  assumes "cache_inv (d\<lparr>capacity := n + 1\<rparr>)" "0 < n" "n < int (length (lru d))" "capacity d = n"
  shows "cache_inv (remove_element d (last (lru d)))"
    and "entries (remove_element d (last (lru d))) = butlast (entries d)"
proof -
  have ne: "lru d \<noteq> []" using assms by auto
  then have l: "last (lru d) \<in> set (lru d)" by simp
  have dist: "distinct (lru d)" using assms(1) by (simp add: cache_inv_def)
  have rem: "remove1 (last (lru d)) (lru d) = butlast (lru d)"
    by (rule remove1_last_distinct [OF dist ne])
  have "cache_inv (remove_element (d\<lparr>capacity := n + 1\<rparr>) (last (lru d)))"
    using assms(1) l by (intro cache_inv_remove) simp_all
  with assms rem show "cache_inv (remove_element d (last (lru d)))"
    by (simp add: cache_inv_def remove_element_def)
  show "entries (remove_element d (last (lru d))) = butlast (entries d)"
    by (simp add: entries_def remove_element_def rem map_butlast)
qed

lemma cache_Put_new:
  assumes "items c k = None" "k = cache_key g (secret c) t ow r"
  shows "cache_Put g c now t ow r v =
    (let d = add_element c \<lparr>ent_key = k, ent_value = v, ent_expiresAt = now + ttl c\<rparr>
     in if capacity c < int (length (lru d)) then remove_element d (last (lru d)) else d)"
  using assms by (simp add: cache_Put_def add_element_def Let_def)

lemma cache_Put_known:
  fixes g :: golib and t ow r :: string
  assumes inv: "cache_inv c"
  defines "k \<equiv> cache_key g (secret c) t ow r"
  assumes Some: "items c k = Some e"
  shows "cache_inv (cache_Put g c now t ow r v) \<and>
    entries (cache_Put g c now t ow r v) = spec_put (capacity c) (now + ttl c) k v (entries c)"
proof -
  let ?d = "c\<lparr>elements := (elements c)(e := (elements c e)
    \<lparr>ent_value := v, ent_expiresAt := now + ttl c\<rparr>)\<rparr>"
  have e: "e \<in> set (lru c)" "ent_key (elements c e) = k"
    using Some cache_invD(5) [OF inv] by auto
  have inv': "cache_inv ?d" using inv by (rule cache_inv_set_value)
  have put: "cache_Put g c now t ow r v = move_to_front ?d e"
    using Some by (simp add: cache_Put_def k_def Let_def)
  have drop: "drop_key k (entries ?d) = map (elements ?d) (remove1 e (lru c))"
    using drop_key_entries [OF inv', of e] e by simp
  also have "\<dots> = map (elements c) (remove1 e (lru c))"
    using cache_invD(1) [OF inv] by (intro map_cong) (auto simp: set_remove1_eq)
  also have "\<dots> = drop_key k (entries c)" using drop_key_entries [OF inv, of e] e by simp
  finally have "drop_key k (entries ?d) = drop_key k (entries c)" .
  then have "entries (move_to_front ?d e)
      = \<lparr>ent_key = k, ent_value = v, ent_expiresAt = now + ttl c\<rparr> # drop_key k (entries c)"
    using entries_move [OF inv', of e] e by simp
  moreover have "length (drop_key k (entries c)) = length (lru c) - 1"
    using drop_key_entries [OF inv, of e] e by (simp add: length_remove1)
  then have "length (drop_key k (entries c)) < nat (capacity c)"
    using cache_invD(3) [OF inv] length_pos_if_in_set [OF e(1)] by linarith
  ultimately show ?thesis
    using cache_inv_move [OF inv', of e] e put by (simp add: spec_put_def)
qed

lemma cache_Put_fresh:
  fixes g :: golib and t ow r :: string
  assumes inv: "cache_inv c"
  defines "k \<equiv> cache_key g (secret c) t ow r"
  assumes None: "items c k = None"
  shows "cache_inv (cache_Put g c now t ow r v) \<and>
    entries (cache_Put g c now t ow r v) = spec_put (capacity c) (now + ttl c) k v (entries c)"
proof -
  let ?x = "\<lparr>ent_key = k, ent_value = v, ent_expiresAt = now + ttl c\<rparr>"
  let ?d = "add_element c ?x"
  have fresh: "items c (ent_key ?x) = None" using None by simp
  have ents: "entries ?d = ?x # entries c" by (rule entries_add_element [OF inv fresh])
  have dropped: "drop_key k (entries c) = entries c"
    using lookup_items [OF inv, of k] None
    by (simp add: lookup_key_def drop_key_def find_None_iff filter_id_conv)
  have len: "length (lru ?d) = Suc (length (entries c))" "capacity ?d = capacity c"
    by (simp_all add: add_element_def entries_def)
  have le: "int (length (entries c)) \<le> capacity c" "0 < capacity c"
    using cache_invD [OF inv] by (simp_all add: entries_def)
  note big = add_element_inv [OF inv fresh]
  show ?thesis
  proof (cases "capacity c < int (length (lru ?d))")
    case True
    with len le have full: "length (entries c) = nat (capacity c)" by linarith
    have "cache_Put g c now t ow r v = remove_element ?d (last (lru ?d))"
      using True None by (simp add: cache_Put_new k_def Let_def)
    with evict_last [OF big le(2) True len(2)] full ents dropped le show ?thesis
      by (simp add: spec_put_def butlast_conv_take take_Cons')
  next
    case False
    with big len have "cache_inv ?d" by (simp add: cache_inv_def)
    moreover have "cache_Put g c now t ow r v = ?d"
      using False None by (simp add: cache_Put_new k_def Let_def)
    ultimately show ?thesis
      using False ents dropped len le by (simp add: spec_put_def take_Cons')
  qed
qed

lemma cache_Put_cases:
  fixes g :: golib and t ow r :: string
  assumes "cache_inv c"
  shows "cache_inv (cache_Put g c now t ow r v) \<and>
    entries (cache_Put g c now t ow r v) = spec_put (capacity c) (now + ttl c) (cache_key g (secret c) t ow r) v (entries c)"
  using cache_Put_known [OF assms] cache_Put_fresh [OF assms] by (cases "items c (cache_key g (secret c) t ow r)") blast+

lemma cache_Put_inv [preserves]: "cache_inv c \<Longrightarrow> cache_inv (cache_Put g c now t ow r v)"
  by (simp add: cache_Put_cases)

lemma cache_Put_refines:
  "cache_inv c \<Longrightarrow> entries (cache_Put g c now t ow r v) =
     spec_put (capacity c) (now + ttl c) (cache_key g (secret c) t ow r) v (entries c)"
  by (simp add: cache_Put_cases)

subsection \<open>The contract a client relies on\<close>

text \<open>
  \<open>stored\<close> is what a lookup would find, with its expiry, and \<open>same\<close> says that two keys
  address the same entry. A hit is a stored, unexpired value; a put stores the value for
  \<open>life\<close> and never invents or prolongs another entry.
\<close>

datatype ('k, 'v) cache_event = GetEv time 'k | PutEv time 'k 'v

fun cache_run :: "('c \<Rightarrow> time \<Rightarrow> 'k \<Rightarrow> 'v option \<times> 'c) \<Rightarrow> ('c \<Rightarrow> time \<Rightarrow> 'k \<Rightarrow> 'v \<Rightarrow> 'c) \<Rightarrow>
    'c \<Rightarrow> ('k, 'v) cache_event list \<Rightarrow> 'c" where
  "cache_run get put c [] = c"
| "cache_run get put c (GetEv t k # evs) = cache_run get put (snd (get c t k)) evs"
| "cache_run get put c (PutEv t k v # evs) = cache_run get put (put c t k v) evs"

locale auth_cache =
  fixes get :: "'c \<Rightarrow> time \<Rightarrow> 'k \<Rightarrow> 'v option \<times> 'c"
    and put :: "'c \<Rightarrow> time \<Rightarrow> 'k \<Rightarrow> 'v \<Rightarrow> 'c"
    and stored :: "'c \<Rightarrow> 'k \<Rightarrow> ('v \<times> time) option"
    and same :: "'k \<Rightarrow> 'k \<Rightarrow> bool"
    and inv :: "'c \<Rightarrow> bool"
    and life :: duration
  assumes inv_get: "inv c \<Longrightarrow> inv (snd (get c now k))"
    and inv_put: "inv c \<Longrightarrow> inv (put c now k v)"
    and get_hit: "inv c \<Longrightarrow> fst (get c now k) = Some v \<longleftrightarrow> (\<exists>x. stored c k = Some (v, x) \<and> now < x)"
    and get_keeps: "inv c \<Longrightarrow> stored (snd (get c now k)) k' = Some e \<Longrightarrow> stored c k' = Some e"
    and put_same: "inv c \<Longrightarrow> same k k' \<Longrightarrow> stored (put c now k v) k' = Some (v, now + life)"
    and put_other: "inv c \<Longrightarrow> \<not> same k k' \<Longrightarrow> stored (put c now k v) k' = Some e \<Longrightarrow> stored c k' = Some e"
begin

lemma hit_after_put:
  "inv c \<Longrightarrow> same k k' \<Longrightarrow> fst (get (put c t k v) now k') = Some v' \<longleftrightarrow> v' = v \<and> now < t + life"
  by (auto simp: get_hit inv_put put_same)

lemma run_inv: "inv c \<Longrightarrow> inv (cache_run get put c evs)"
proof (induction evs arbitrary: c)
  case (Cons ev evs)
  then show ?case by (cases ev) (simp_all add: inv_get inv_put)
qed simp

text \<open>Every entry of a reached cache comes from the start or from a put of the run.\<close>

lemma run_stored:
  "inv c \<Longrightarrow> stored (cache_run get put c evs) k = Some (v, x) \<Longrightarrow>
     stored c k = Some (v, x) \<or> (\<exists>t k'. PutEv t k' v \<in> set evs \<and> same k' k \<and> x = t + life)"
proof (induction evs arbitrary: c)
  case (Cons ev evs)
  show ?case
  proof (cases ev)
    case (GetEv t k')
    with Cons.IH [of "snd (get c t k')"] Cons.prems show ?thesis
      by (auto intro: inv_get dest: get_keeps)
  next
    case (PutEv t k' v')
    with Cons.IH [of "put c t k' v'"] Cons.prems
    have "stored (put c t k' v') k = Some (v, x) \<or>
        (\<exists>t k'. PutEv t k' v \<in> set evs \<and> same k' k \<and> x = t + life)"
      by (auto intro: inv_put)
    then show ?thesis
      using put_same [OF Cons.prems(1), of k' k t v'] put_other [OF Cons.prems(1), of k' k t v' "(v, x)"] PutEv
      by (cases "same k' k") auto
  qed
qed simp

lemma run_hit:
  assumes "inv c" "\<And>k. stored c k = None" "fst (get (cache_run get put c evs) now k) = Some v"
  shows "\<exists>t k'. PutEv t k' v \<in> set evs \<and> same k' k \<and> now < t + life"
proof -
  from assms(1,3) obtain x where "stored (cache_run get put c evs) k = Some (v, x)" "now < x"
    by (auto simp: get_hit run_inv)
  with run_stored [OF assms(1)] assms(2) show ?thesis by fastforce
qed

end

type_synonym cache_triple = "string \<times> string \<times> string"

definition triple_key :: "golib \<Rightarrow> string \<Rightarrow> cache_triple \<Rightarrow> string" where
  "triple_key g s k = (case k of (t, ow, r) \<Rightarrow> cache_key g s t ow r)"

definition cache_get :: "golib \<Rightarrow> Cache \<Rightarrow> time \<Rightarrow> cache_triple \<Rightarrow> Authorization option \<times> Cache" where
  "cache_get g c now k = (case k of (t, ow, r) \<Rightarrow> cache_Get g c now t ow r)"

definition cache_put :: "golib \<Rightarrow> Cache \<Rightarrow> time \<Rightarrow> cache_triple \<Rightarrow> Authorization \<Rightarrow> Cache" where
  "cache_put g c now k v = (case k of (t, ow, r) \<Rightarrow> cache_Put g c now t ow r v)"

definition cache_stored :: "golib \<Rightarrow> Cache \<Rightarrow> cache_triple \<Rightarrow> (Authorization \<times> time) option" where
  "cache_stored g c k =
     map_option (\<lambda>x. (ent_value x, ent_expiresAt x)) (lookup_key (triple_key g (secret c) k) (entries c))"

definition cache_ok :: "string \<Rightarrow> duration \<Rightarrow> Cache \<Rightarrow> bool" where
  "cache_ok s life c = (cache_inv c \<and> secret c = s \<and> ttl c = life)"

lemma lookup_drop_key:
  "lookup_key k' (drop_key k es) = (if k' = k then None else lookup_key k' es)"
  by (induction es) (auto simp: lookup_key_def drop_key_def)

lemma lookup_take: "lookup_key k (take n es) = Some x \<Longrightarrow> lookup_key k es = Some x"
  by (induction es arbitrary: n) (auto simp: lookup_key_def take_Cons' split: if_splits)

lemma lookup_Cons: "lookup_key k (x # es) = (if ent_key x = k then Some x else lookup_key k es)"
  by (simp add: lookup_key_def)

lemma lookup_key_ent: "lookup_key k es = Some x \<Longrightarrow> ent_key x = k"
  by (auto simp: lookup_key_def dest: find_SomeD)

lemma lookup_spec_get:
  "lookup_key k' (snd (spec_get now k es)) = Some x \<Longrightarrow> lookup_key k' es = Some x"
  by (auto simp: spec_get_def lookup_drop_key lookup_Cons dest: lookup_key_ent
      split: option.splits if_splits)

lemma lookup_spec_put:
  "0 < cap \<Longrightarrow> lookup_key k (spec_put cap x k v es) =
      Some \<lparr>ent_key = k, ent_value = v, ent_expiresAt = x\<rparr>"
  by (auto simp: spec_put_def take_Cons' lookup_Cons)

lemma lookup_spec_put_other:
  "lookup_key k' (spec_put cap x k v es) = Some e \<Longrightarrow> k' \<noteq> k \<Longrightarrow> lookup_key k' es = Some e"
  using lookup_take [of k' "nat cap - 1" "drop_key k es"]
  by (auto simp: spec_put_def take_Cons' lookup_Cons lookup_drop_key split: if_splits)

interpretation lru_cache: auth_cache "cache_get g" "cache_put g" "cache_stored g"
    "\<lambda>k k'. triple_key g s k = triple_key g s k'" "cache_ok s life" life
  for g s life
proof (unfold_locales, goal_cases)
  case (1 c now k)
  then show ?case by (cases k) (simp add: cache_ok_def cache_get_def cache_Get_inv)
next
  case (2 c now k v)
  then show ?case by (cases k) (simp add: cache_ok_def cache_put_def cache_Put_inv)
next
  case (3 c now k v)
  then show ?case
    by (cases k) (auto simp: cache_ok_def cache_get_def cache_stored_def triple_key_def
        cache_Get_refines(1) spec_get_def split: option.splits)
next
  case (4 c now k k' e)
  then show ?case
    by (cases k) (auto simp: cache_ok_def cache_get_def cache_stored_def cache_Get_refines(2)
        dest: lookup_spec_get)
next
  case (5 c k k' now v)
  then show ?case
    by (cases k) (auto simp: cache_ok_def cache_put_def cache_stored_def cache_Put_refines
        triple_key_def lookup_spec_put cache_invD(2))
next
  case (6 c k k' now v e)
  then show ?case
    by (cases k) (auto simp: cache_ok_def cache_put_def cache_stored_def cache_Put_refines
        triple_key_def dest!: lookup_spec_put_other)
qed

subsection \<open>Recency\<close>

text \<open>\<open>within n k x es\<close>: the entry \<open>x\<close> for \<open>k\<close> has at most \<open>n\<close> entries before it.\<close>

definition within :: "nat \<Rightarrow> string \<Rightarrow> entry \<Rightarrow> entry list \<Rightarrow> bool" where
  "within n k x es \<longleftrightarrow>
     (\<exists>ys zs. es = ys @ x # zs \<and> length ys \<le> n \<and> ent_key x = k \<and> (\<forall>y \<in> set ys. ent_key y \<noteq> k))"

lemma withinI:
  "es = ys @ x # zs \<Longrightarrow> length ys \<le> n \<Longrightarrow> ent_key x = k \<Longrightarrow> \<forall>y \<in> set ys. ent_key y \<noteq> k \<Longrightarrow>
     within n k x es"
  unfolding within_def by blast

lemma withinE:
  assumes "within n k x es"
  obtains ys zs where "es = ys @ x # zs" "length ys \<le> n" "ent_key x = k" "\<forall>y \<in> set ys. ent_key y \<noteq> k"
  using assms unfolding within_def by blast

lemma within_lookup:
  assumes "within n k x es"
  shows "lookup_key k es = Some x"
proof -
  obtain ys zs where es: "es = ys @ x # zs" "ent_key x = k" "\<forall>y \<in> set ys. ent_key y \<noteq> k"
    using assms by (rule withinE)
  then have "lookup_key k (ys @ x # zs) = Some x"
    by (induction ys arbitrary: es) (simp_all add: lookup_Cons)
  with es show ?thesis by simp
qed

lemma within_drop:
  assumes "within n k x es" "k' \<noteq> k"
  shows "within n k x (drop_key k' es)"
proof -
  obtain ys zs where es: "es = ys @ x # zs" "length ys \<le> n" "ent_key x = k" "\<forall>y \<in> set ys. ent_key y \<noteq> k"
    using assms(1) by (rule withinE)
  have "length (drop_key k' ys) \<le> n"
    using es(2) length_filter_le [of _ ys] unfolding drop_key_def by (rule le_trans [rotated])
  then show ?thesis
    using es assms(2) by (intro withinI [of _ "drop_key k' ys" _ "drop_key k' zs"]) (auto simp: drop_key_def)
qed

lemma within_mono: "within n k x es \<Longrightarrow> n \<le> m \<Longrightarrow> within m k x es"
  by (elim withinE) (rule withinI, assumption, simp_all)

lemma within_Cons:
  assumes "within n k x es" "ent_key y \<noteq> k"
  shows "within (Suc n) k x (y # es)"
proof -
  obtain ys zs where "es = ys @ x # zs" "length ys \<le> n" "ent_key x = k" "\<forall>y \<in> set ys. ent_key y \<noteq> k"
    using assms(1) by (rule withinE)
  with assms(2) show ?thesis by (intro withinI [of _ "y # ys" _ zs]) auto
qed

lemma within_take:
  assumes "within n k x es" "n < m"
  shows "within n k x (take m es)"
proof -
  obtain ys zs where "es = ys @ x # zs" "length ys \<le> n" "ent_key x = k" "\<forall>y \<in> set ys. ent_key y \<noteq> k"
    using assms(1) by (rule withinE)
  with assms(2) show ?thesis
    by (intro withinI [of _ ys _ "take (m - Suc (length ys)) zs"]) (auto simp: take_Cons')
qed

lemma within_spec_get:
  "within n k x es \<Longrightarrow> k' \<noteq> k \<Longrightarrow> within (Suc n) k x (snd (spec_get now k' es))"
  by (auto simp: spec_get_def intro: within_mono within_drop within_Cons dest: lookup_key_ent
      split: option.splits)

lemma within_spec_put:
  "within n k x es \<Longrightarrow> k' \<noteq> k \<Longrightarrow> Suc n < nat cap \<Longrightarrow>
     within (Suc n) k x (spec_put cap now k' v es)"
  unfolding spec_put_def by (intro within_take within_Cons within_drop) simp_all

lemma within_after_put:
  "0 < cap \<Longrightarrow> within 0 k \<lparr>ent_key = k, ent_value = v, ent_expiresAt = x\<rparr> (spec_put cap x k v es)"
  by (auto simp: within_def spec_put_def take_Cons')

primrec event_key :: "('k, 'v) cache_event \<Rightarrow> 'k" where
  "event_key (GetEv t k) = k"
| "event_key (PutEv t k v) = k"

lemma run_within:
  assumes "cache_ok s life c" "within n k x (entries c)"
    and "\<forall>ev \<in> set evs. triple_key g s (event_key ev) \<noteq> k"
    and "n + length evs < nat (capacity c)"
  shows "within (n + length evs) k x (entries (cache_run (cache_get g) (cache_put g) c evs))"
  using assms
proof (induction evs arbitrary: c n)
  case (Cons ev evs)
  show ?case
  proof (cases ev)
    case (GetEv t k')
    let ?d = "snd (cache_get g c t k')"
    have "within (Suc n) k x (entries ?d)" "capacity ?d = capacity c"
      using Cons.prems GetEv
      by (cases k'; auto simp: cache_get_def cache_ok_def cache_Get_refines(2) triple_key_def
          intro!: within_spec_get)+
    with Cons.IH [of ?d "Suc n"] Cons.prems GetEv show ?thesis
      by (simp add: lru_cache.inv_get)
  next
    case (PutEv t k' v)
    let ?d = "cache_put g c t k' v"
    have "within (Suc n) k x (entries ?d)" "capacity ?d = capacity c"
      using Cons.prems PutEv
      by (cases k'; auto simp: cache_put_def cache_ok_def cache_Put_refines triple_key_def
          intro!: within_spec_put)+
    with Cons.IH [of ?d "Suc n"] Cons.prems PutEv show ?thesis
      by (simp add: lru_cache.inv_put)
  qed
qed simp

subsection \<open>Properties of the cache\<close>

lemma cache_New_ok:
  "cache_New cap life random = Inr c \<Longrightarrow>
     \<exists>s. random = Some s \<and> 0 < cap \<and> 0 < life \<and> c = newWithClock cap life s \<and> cache_ok s life c"
  by (auto simp: cache_New_def cache_ok_def cache_inv_newWithClock
      split: if_splits option.splits) (simp_all add: newWithClock_def)

lemma cache_New_stored: "cache_stored g (newWithClock cap life s) k = None"
  by (simp add: cache_stored_def entries_def newWithClock_def lookup_key_def)

lemma cache_run_capacity [simp]:
  "capacity (cache_run (cache_get g) (cache_put g) c evs) = capacity c"
proof (induction evs arbitrary: c)
  case (Cons ev evs)
  then show ?case
    by (cases ev) (simp_all add: cache_get_def cache_put_def split: prod.splits)
qed simp

lemma cache_inv_dom: "cache_inv c \<Longrightarrow> card (dom (items c)) = length (lru c)"
proof -
  assume inv: "cache_inv c"
  have "dom (items c) = (\<lambda>e. ent_key (elements c e)) ` set (lru c)"
    using cache_invD(5) [OF inv] by (auto simp: dom_def)
  moreover have "inj_on (\<lambda>e. ent_key (elements c e)) (set (lru c))"
    using cache_inv_key_inj [OF inv] by (auto simp: inj_on_def)
  ultimately show ?thesis
    using cache_invD(1) [OF inv] by (simp add: card_image distinct_card)
qed

text \<open>Concrete arguments for the witnesses of this theory and of later ones.\<close>

definition lib0 :: golib where
  "lib0 = \<lparr>unicode_lower = (\<lambda>s. s), quoted = (\<lambda>s. s), lib_error_text = (\<lambda>_. ''library error''),
     hmac_sha256 = (\<lambda>k m. k @ m),
     ipv6_address = (\<lambda>s. s = ''::1'')\<rparr>"

definition auth0 :: Authorization where
  "auth0 = \<lparr>RepositoryID = 99, Permission = PermissionWrite, CanonicalName = ''o/r''\<rparr>"

text \<open>
  C11. The cache is bounded and its two structures agree, whatever the sequence of Gets and
  Puts: the list never holds more elements than the capacity, and the map has exactly one
  key per list element, the one stored in it.
\<close>

theorem cache_bounded_and_consistent:
  assumes "cache_New cap life random = Inr c0"
  shows "cache_inv (cache_run (cache_get g) (cache_put g) c0 evs)
    \<and> int (length (lru (cache_run (cache_get g) (cache_put g) c0 evs))) \<le> cap
    \<and> card (dom (items (cache_run (cache_get g) (cache_put g) c0 evs)))
        = length (lru (cache_run (cache_get g) (cache_put g) c0 evs))"
proof -
  obtain s where s: "c0 = newWithClock cap life s" "cache_ok s life c0"
    using cache_New_ok [OF assms] by blast
  then have "cache_ok s life (cache_run (cache_get g) (cache_put g) c0 evs)"
    by (intro lru_cache.run_inv)
  then have inv: "cache_inv (cache_run (cache_get g) (cache_put g) c0 evs)"
    by (simp add: cache_ok_def)
  moreover have "capacity c0 = cap" using s by (simp add: newWithClock_def)
  ultimately show ?thesis
    using cache_invD(3) [OF inv] cache_inv_dom [OF inv] by simp
qed

theorem cache_bounded_and_consistent_witness:
  "cache_New 1 60 (Some ''s'') = Inr (newWithClock 1 60 ''s'') \<and>
   int (length (lru (cache_run (cache_get lib0) (cache_put lib0) (newWithClock 1 60 ''s'')
     [PutEv 0 (''t'', ''o'', ''r'') auth0, PutEv 1 (''t'', ''o'', ''q'') auth0]))) \<le> 1"
proof -
  have new: "cache_New 1 60 (Some ''s'') = Inr (newWithClock 1 60 ''s'')"
    by (simp add: cache_New_def)
  show ?thesis using new cache_bounded_and_consistent [OF new] by blast
qed

text \<open>
  C10. Get and Put implement the specification on the list of entries, most recent first:
  Get returns the unexpired entry for the key and moves it to the front, drops an expired
  one, and Put places the entry in front and cuts the list to the capacity, so that the
  least recently used entry is the one evicted.
\<close>

theorem cache_refines_lru_list:
  assumes "cache_inv c"
  shows "fst (cache_Get g c now t ow r) =
      fst (spec_get now (cache_key g (secret c) t ow r) (entries c))
    \<and> entries (snd (cache_Get g c now t ow r)) =
      snd (spec_get now (cache_key g (secret c) t ow r) (entries c))
    \<and> entries (cache_Put g c now t ow r v) =
      spec_put (capacity c) (now + ttl c) (cache_key g (secret c) t ow r) v (entries c)"
  using cache_Get_refines [OF assms] cache_Put_refines [OF assms] by simp

theorem cache_refines_lru_list_witness:
  "cache_inv (newWithClock 2 60 ''s'') \<and>
   entries (cache_Put lib0 (newWithClock 2 60 ''s'') 5 ''t'' ''o'' ''r'' auth0) =
     spec_put 2 65 (cache_key lib0 ''s'' ''t'' ''o'' ''r'') auth0 []"
proof -
  have inv: "cache_inv (newWithClock 2 60 ''s'')" by (simp add: cache_inv_newWithClock)
  show ?thesis
    using inv cache_refines_lru_list [OF inv, of lib0 5 "''t''" "''o''" "''r''" auth0]
    by (simp add: newWithClock_def entries_def)
qed

text \<open>
  C12. A cached authorization is never older than the TTL: a hit at time \<open>now\<close>, after any
  sequence of operations on a new cache, returns a value that an earlier Put stored under
  the same key less than the TTL before.
\<close>

theorem cache_hit_provenance:
  assumes "cache_New cap life (Some s) = Inr c0"
    and "fst (cache_Get g (cache_run (cache_get g) (cache_put g) c0 evs) now t ow r) = Some a"
  shows "\<exists>t0 k. PutEv t0 k a \<in> set evs \<and> triple_key g s k = cache_key g s t ow r \<and> now < t0 + life"
proof -
  have c0: "c0 = newWithClock cap life s" "cache_ok s life c0"
    using cache_New_ok [OF assms(1)] by auto
  have "fst (cache_get g (cache_run (cache_get g) (cache_put g) c0 evs) now (t, ow, r)) = Some a"
    using assms(2) by (simp add: cache_get_def)
  from lru_cache.run_hit [OF c0(2) _ this] show ?thesis
    by (simp add: c0(1) cache_New_stored triple_key_def)
qed

text \<open>The witness evaluates a cache with an identity-like MAC, whose keys are distinct texts.\<close>

theorem cache_hit_provenance_witness:
  "\<exists>t0 k. PutEv t0 k auth0 \<in> set [PutEv 0 (''t'', ''o'', ''r'') auth0]
     \<and> triple_key lib0 ''s'' k = cache_key lib0 ''s'' ''t'' ''O'' ''r'' \<and> 59 < t0 + 60"
proof (rule cache_hit_provenance [where cap = 1])
  show "cache_New 1 60 (Some ''s'') = Inr (newWithClock 1 60 ''s'')"
    by (simp add: cache_New_def)
  show "fst (cache_Get lib0 (cache_run (cache_get lib0) (cache_put lib0)
      (newWithClock 1 60 ''s'') [PutEv 0 (''t'', ''o'', ''r'') auth0]) 59 ''t'' ''O'' ''r'') = Some auth0"
    by code_simp
qed

lemma cache_hit_again:
  assumes "cache_inv c"
    and "ToLower g ow' = ToLower g ow" and "ToLower g r' = ToLower g r"
  shows "fst (cache_Get g (cache_Put g c t0 t ow r v) now t ow' r') =
    (if now < t0 + ttl c then Some v else None)"
proof -
  let ?d = "cache_put g c t0 (t, ow, r) v"
  have ok: "cache_ok (secret c) (ttl c) c" using assms(1) by (simp add: cache_ok_def)
  have "triple_key g (secret c) (t, ow, r) = triple_key g (secret c) (t, ow', r')"
    using assms(2,3) by (simp add: triple_key_def cache_key_def mac_message_def)
  from lru_cache.hit_after_put [OF ok this]
  have "fst (cache_get g ?d now (t, ow', r')) = Some v' \<longleftrightarrow> v' = v \<and> now < t0 + ttl c" for v' .
  then have "fst (cache_get g ?d now (t, ow', r')) = (if now < t0 + ttl c then Some v else None)"
    by (cases "fst (cache_get g ?d now (t, ow', r'))") auto
  then show ?thesis by (simp add: cache_get_def cache_put_def)
qed

lemma cache_Get_life [simp]: "ttl (snd (cache_Get g c now t ow r)) = ttl c"
  by (simp add: cache_Get_def Let_def remove_element_def move_to_front_def split: option.split)

text \<open>
  What Put stores, Get returns for the TTL and no longer, for every spelling of the
  repository path that differs in ASCII case only; before the Put, or after a failed lookup
  has dropped an expired entry, nothing changes in that.
\<close>

theorem cache_get_after_put:
  assumes "cache_inv c"
    and "ToLower g ow' = ToLower g ow" and "ToLower g r' = ToLower g r"
  shows "fst (cache_Get g (cache_Put g (snd (cache_Get g c t1 t ow r)) t0 t ow r v) now t ow' r') =
      (if now < t0 + ttl c then Some v else None)
    \<and> fst (cache_Get g (cache_Put g c t0 t ow r v) now t ow' r') =
      (if now < t0 + ttl c then Some v else None)"
  using cache_hit_again [OF assms] cache_hit_again [OF cache_Get_inv [OF assms(1)] assms(2,3)] by simp

theorem cache_get_after_put_witness:
  "fst (cache_Get lib0 (cache_Put lib0 (newWithClock 1 60 ''s'') 0 ''t'' ''Org'' ''Repo'' auth0)
     59 ''t'' ''org'' ''rEPO'') = Some auth0"
proof -
  have "ToLower lib0 ''org'' = ToLower lib0 ''Org''" "ToLower lib0 ''rEPO'' = ToLower lib0 ''Repo''"
    by code_simp+
  from cache_get_after_put [OF cache_inv_newWithClock [of 1 60 "''s''"] this, of 0 "''t''" 0 auth0 59]
  show ?thesis by (simp add: newWithClock_def)
qed

text \<open>
  An entry is evicted only by newer ones: after a Put, any operations on other keys,
  fewer of them than the capacity, leave the entry in place until it expires.
\<close>

theorem cache_keeps_recent:
  assumes "cache_inv c"
    and "list_all (\<lambda>ev. triple_key g (secret c) (event_key ev) \<noteq> cache_key g (secret c) t ow r) evs"
    and "int (length evs) < capacity c" and "now < t0 + ttl c"
  shows "fst (cache_Get g (cache_run (cache_get g) (cache_put g) (cache_Put g c t0 t ow r v) evs)
    now t ow r) = Some v"
proof -
  let ?k = "cache_key g (secret c) t ow r" and ?d = "cache_Put g c t0 t ow r v"
  let ?x = "\<lparr>ent_key = ?k, ent_value = v, ent_expiresAt = t0 + ttl c\<rparr>"
  let ?e = "cache_run (cache_get g) (cache_put g) ?d evs"
  have ok: "cache_ok (secret c) (ttl c) ?d" using assms(1) by (simp add: cache_ok_def cache_Put_inv)
  have "within 0 ?k ?x (entries ?d)"
    using assms(1) by (simp add: cache_Put_refines within_after_put cache_invD(2))
  with ok have "within (0 + length evs) ?k ?x (entries ?e)"
    using assms(2,3) by (intro run_within) (auto simp: list_all_iff)
  then have look: "lookup_key ?k (entries ?e) = Some ?x" by (rule within_lookup)
  have "cache_ok (secret c) (ttl c) ?e" using ok by (rule lru_cache.run_inv)
  with look assms(4) show ?thesis
    by (simp add: cache_ok_def cache_Get_refines(1) spec_get_def)
qed

theorem cache_keeps_recent_witness:
  "fst (cache_Get lib0 (cache_run (cache_get lib0) (cache_put lib0)
     (cache_Put lib0 (newWithClock 2 60 ''s'') 0 ''t'' ''o'' ''r'' auth0) [PutEv 1 (''t'', ''o'', ''q'') auth0])
     30 ''t'' ''o'' ''r'') = Some auth0"
proof (rule cache_keeps_recent)
  show "cache_inv (newWithClock 2 60 ''s'')" by (simp add: cache_inv_newWithClock)
  show "list_all (\<lambda>ev. triple_key lib0 (secret (newWithClock 2 60 ''s'')) (event_key ev)
      \<noteq> cache_key lib0 (secret (newWithClock 2 60 ''s'')) ''t'' ''o'' ''r'')
      [PutEv 1 (''t'', ''o'', ''q'') auth0]"
    by code_simp
qed (simp_all add: newWithClock_def)

text \<open>
  The MAC input separates its three parts as long as a token holds no NUL byte and an
  owner no slash: two lookups then share an entry only if the tokens are equal and the
  lower-cased owners and repositories are.
\<close>

lemma append_sep_inject:
  "c \<notin> set xs \<Longrightarrow> c \<notin> set xs' \<Longrightarrow> xs @ c # ys = xs' @ c # ys' \<longleftrightarrow> xs = xs' \<and> ys = ys'"
proof (induction xs arbitrary: xs')
  case Nil
  then show ?case by (cases xs') auto
next
  case (Cons x xs)
  then show ?case by (cases xs') auto
qed

theorem mac_message_injective:
  assumes "char_of (0::nat) \<notin> set t" "char_of (0::nat) \<notin> set t'"
    and "CHR ''/'' \<notin> set (ToLower g ow)" "CHR ''/'' \<notin> set (ToLower g ow')"
  shows "mac_message g t ow r = mac_message g t' ow' r' \<longleftrightarrow>
    t = t' \<and> ToLower g ow = ToLower g ow' \<and> ToLower g r = ToLower g r'"
  using assms by (simp add: mac_message_def append_sep_inject)

theorem mac_message_injective_witness:
  "mac_message lib0 ''ghu_a'' ''o'' ''r'' \<noteq> mac_message lib0 ''ghu_a'' ''o'' ''q''"
proof -
  have t: "char_of (0::nat) \<notin> set ''ghu_a''" by code_simp
  have o: "CHR ''/'' \<notin> set (ToLower lib0 ''o'')" by code_simp
  have "ToLower lib0 ''r'' \<noteq> ToLower lib0 ''q''" by code_simp
  with mac_message_injective [OF t t o o, of "''r''" "''q''"] show ?thesis by simp
qed

text \<open>
  C38. The cache key does not separate owner and repository. Path values are percent-decoded, so an
  owner or a repository may hold a slash: the entry stored for owner \<open>x\<close> and repository
  \<open>y/z\<close> is the one found for owner \<open>x/y\<close> and repository \<open>z\<close>.
\<close>

theorem cache_key_slash_ambiguous:
  "cache_inv c \<and> ascii_string x \<and> ascii_string y \<and> ascii_string z \<and> now < t0 + ttl c \<Longrightarrow>
   fst (cache_Get g (cache_Put g c t0 t x (y @ ''/'' @ z) v) now t (x @ ''/'' @ y) z) = Some v"
proof -
  assume a: "cache_inv c \<and> ascii_string x \<and> ascii_string y \<and> ascii_string z \<and> now < t0 + ttl c"
  then have "ascii_string (x @ ''/'' @ y)" "ascii_string (y @ ''/'' @ z)" "lower_char (CHR ''/'') = CHR ''/''"
    by (simp_all add: ascii_string_def lower_char_def)
  with a have "triple_key g (secret c) (t, x, y @ ''/'' @ z) = triple_key g (secret c) (t, x @ ''/'' @ y, z)"
    by (simp add: triple_key_def cache_key_def mac_message_def)
  moreover have "cache_ok (secret c) (ttl c) c" using a by (simp add: cache_ok_def)
  ultimately show ?thesis
    using lru_cache.hit_after_put [of "secret c" "ttl c" c g "(t, x, y @ ''/'' @ z)" "(t, x @ ''/'' @ y, z)" t0 v now v] a
    by (simp add: cache_get_def cache_put_def)
qed

theorem cache_key_slash_ambiguous_witness:
  "fst (cache_Get lib0 (cache_Put lib0 (newWithClock 1 60 ''s'') 0 ''t'' ''a'' (''b'' @ ''/'' @ ''c'') auth0)
     1 ''t'' (''a'' @ ''/'' @ ''b'') ''c'') = Some auth0"
  by (rule cache_key_slash_ambiguous) (simp add: cache_inv_newWithClock, simp add: newWithClock_def ascii_string_def)

end
