(* ===== verification/Go_Url.thy ===== *)
theory Go_Url
  imports Go_Errors
begin

section \<open>URLs as net/url parses and prints them\<close>

text \<open>
  url.Parse and URL.String of Go's package net/url, on byte strings. The function that says
  whether a text is an IPv6 address (netip.ParseAddr) is a field of \<open>golib\<close>; everything else
  is computed. An error is \<open>None\<close>: the program reports its own text for it.
\<close>

subsection \<open>Escaping\<close>

datatype url_mode = HostMode | ZoneMode | PathMode | UserMode | FragmentMode

definition alnum :: "char \<Rightarrow> bool" where
  "alnum c = (48 \<le> byte c \<and> byte c \<le> 57 \<or> 65 \<le> byte c \<and> byte c \<le> 90 \<or> 97 \<le> byte c \<and> byte c \<le> 122)"

definition host_extra :: string where
  "host_extra = ''!$&'' @ [CHR 0x27] @ ''()*+,;=:[]<>'' @ [CHR 0x22]"

definition should_escape :: "url_mode \<Rightarrow> char \<Rightarrow> bool" where
  "should_escape mode c =
     (if alnum c then False
      else if (mode = HostMode \<or> mode = ZoneMode) \<and> c \<in> set host_extra then False
      else if c \<in> set ''-_.~'' then False
      else if c \<in> set ''$&+,/:;=?@'' \<and> mode = PathMode then c = CHR ''?''
      else if c \<in> set ''$&+,/:;=?@'' \<and> mode = UserMode then c \<in> set ''@/?:''
      else if c \<in> set ''$&+,/:;=?@'' \<and> mode = FragmentMode then False
      else if mode = FragmentMode \<and> c \<in> set ''!()*'' then False
      else True)"

fun url_escape :: "url_mode \<Rightarrow> string \<Rightarrow> string" where
  "url_escape mode [] = []"
| "url_escape mode (c # s) =
     (if should_escape mode c then
        CHR ''%'' # upper_hex (byte c div 16) # upper_hex (byte c mod 16) # url_escape mode s
      else c # url_escape mode s)"

fun url_unescape :: "url_mode \<Rightarrow> string \<Rightarrow> string option" where
  "url_unescape mode [] = Some []"
| "url_unescape mode (c # s) =
     (if c = CHR ''%'' then
        (case s of
           a # b # t \<Rightarrow>
             (case (hex_value a, hex_value b) of
                (Some x, Some y) \<Rightarrow>
                  if mode = HostMode \<and> x < 8 \<and> [a, b] \<noteq> ''25'' then None
                  else if mode = ZoneMode \<and> [a, b] \<noteq> ''25'' \<and> 16 * x + y \<noteq> 32
                      \<and> should_escape HostMode (char_of (16 * x + y)) then None
                  else map_option ((#) (char_of (16 * x + y))) (url_unescape mode t)
              | _ \<Rightarrow> None)
         | _ \<Rightarrow> None)
      else if (mode = HostMode \<or> mode = ZoneMode) \<and> byte c < 128 \<and> should_escape mode c then None
      else map_option ((#) c) (url_unescape mode s))"

subsection \<open>The parts of a URL\<close>

record url =
  scheme :: string
  opaque :: string
  userinfo :: "(string \<times> string option) option"
  host :: string
  path :: string
  raw_path :: string
  omit_host :: bool
  force_query :: bool
  raw_query :: string
  fragment :: string
  raw_fragment :: string

definition empty_url :: url where
  "empty_url = \<lparr>scheme = [], opaque = [], userinfo = None, host = [], path = [], raw_path = [],
     omit_host = False, force_query = False, raw_query = [], fragment = [], raw_fragment = []\<rparr>"

text \<open>strings.Cut with a one-byte separator.\<close>

definition cut_at :: "char \<Rightarrow> string \<Rightarrow> string \<times> string" where
  "cut_at c s = (takeWhile (\<lambda>x. x \<noteq> c) s, drop 1 (dropWhile (\<lambda>x. x \<noteq> c) s))"

definition letter :: "char \<Rightarrow> bool" where
  "letter c = (65 \<le> byte c \<and> byte c \<le> 90 \<or> 97 \<le> byte c \<and> byte c \<le> 122)"

fun before_colon :: "string \<Rightarrow> (string \<times> string) option" where
  "before_colon [] = None"
| "before_colon (c # s) =
     (if c = CHR '':'' then Some ([], s)
      else if alnum c \<or> c \<in> set ''+-.'' then map_option (\<lambda>(p, r). (c # p, r)) (before_colon s)
      else None)"

definition get_scheme :: "string \<Rightarrow> (string \<times> string) option" where
  "get_scheme s =
     (case s of
        [] \<Rightarrow> Some ([], [])
      | c # _ \<Rightarrow>
          if c = CHR '':'' then None
          else if \<not> letter c then Some ([], s)
          else (case before_colon s of None \<Rightarrow> Some ([], s) | Some pr \<Rightarrow> Some pr))"

definition digit_byte :: "char \<Rightarrow> bool" where
  "digit_byte c = (48 \<le> byte c \<and> byte c \<le> 57)"

definition valid_optional_port :: "string \<Rightarrow> bool" where
  "valid_optional_port s = (case s of [] \<Rightarrow> True | c # t \<Rightarrow> c = CHR '':'' \<and> list_all digit_byte t)"

definition valid_userinfo :: "string \<Rightarrow> bool" where
  "valid_userinfo s = list_all (\<lambda>c. alnum c \<or> c \<in> set (''-._:~!$&'' @ [CHR 0x27] @ ''()*+,;=%@'')) s"

definition find_percent25 :: "string \<Rightarrow> nat option" where
  "find_percent25 s = find (\<lambda>i. has_prefix (drop i s) ''%25'') [0..<length s]"

definition ip_literal :: "golib \<Rightarrow> string \<Rightarrow> string option" where
  "ip_literal g h =
     (let close = last_index h '']'' in
      if close < 0 then None
      else
        (let name = take (nat close - 1) (drop 1 h); port = drop (Suc (nat close)) h;
             unescaped = (case find_percent25 name of
                None \<Rightarrow> url_unescape HostMode name
              | Some i \<Rightarrow>
                  (case (url_unescape HostMode (take i name), url_unescape ZoneMode (drop i name)) of
                     (Some a, Some z) \<Rightarrow> Some (a @ z) | _ \<Rightarrow> None))
         in if \<not> valid_optional_port port then None
            else case unescaped of
              None \<Rightarrow> None
            | Some a \<Rightarrow> if ipv6_address g a then Some (''['' @ a @ '']'' @ port) else None))"

text \<open>
  A colon starts the port. For http and https it is the first one, so a second colon is an
  error; other schemes may list several hosts with their ports.
\<close>

definition parse_host :: "golib \<Rightarrow> string \<Rightarrow> string \<Rightarrow> string option" where
  "parse_host g sch h =
     (if 0 < last_index h ''['' then None
      else if last_index h ''['' = 0 then ip_literal g h
      else
        (let port = (if sch = ''http'' \<or> sch = ''https'' then dropWhile (\<lambda>c. c \<noteq> CHR '':'') h
                     else if last_index h '':'' < 0 then [] else drop (nat (last_index h '':'')) h)
         in if \<not> valid_optional_port port then None else url_unescape HostMode h))"

definition parse_user :: "string \<Rightarrow> (string \<times> string option) option" where
  "parse_user info =
     (if \<not> valid_userinfo info then None
      else if CHR '':'' \<notin> set info then map_option (\<lambda>u. (u, None)) (url_unescape UserMode info)
      else
        (case (url_unescape UserMode (fst (cut_at (CHR '':'') info)), url_unescape UserMode (snd (cut_at (CHR '':'') info))) of
           (Some u, Some p) \<Rightarrow> Some (u, Some p) | _ \<Rightarrow> None))"

definition parse_authority ::
    "golib \<Rightarrow> string \<Rightarrow> string \<Rightarrow> ((string \<times> string option) option \<times> string) option" where
  "parse_authority g sch a =
     (let i = last_index a ''@'' in
      if i < 0 then map_option (\<lambda>h. (None, h)) (parse_host g sch a)
      else case parse_host g sch (drop (Suc (nat i)) a) of
        None \<Rightarrow> None
      | Some h \<Rightarrow> map_option (\<lambda>u. (Some u, h)) (parse_user (take (nat i) a)))"

definition set_path :: "string \<Rightarrow> url \<Rightarrow> url option" where
  "set_path p u =
     map_option (\<lambda>d. u\<lparr>path := d, raw_path := (if url_escape PathMode d = p then [] else p)\<rparr>)
       (url_unescape PathMode p)"

definition set_fragment :: "string \<Rightarrow> url \<Rightarrow> url option" where
  "set_fragment f u =
     map_option (\<lambda>d. u\<lparr>fragment := d, raw_fragment := (if url_escape FragmentMode d = f then [] else f)\<rparr>)
       (url_unescape FragmentMode f)"

definition control_byte :: "char \<Rightarrow> bool" where
  "control_byte c = (byte c < 32 \<or> byte c = 127)"

subsection \<open>Parse\<close>

text \<open>The rest after the scheme and the query: a path, with an authority before it or not.\<close>

definition parse_hierarchy :: "golib \<Rightarrow> string \<Rightarrow> url \<Rightarrow> url option" where
  "parse_hierarchy g rest u =
     (if \<not> has_prefix rest ''/'' \<and> scheme u \<noteq> [] then Some (u\<lparr>opaque := rest\<rparr>)
      else if \<not> has_prefix rest ''/'' \<and> CHR '':'' \<in> set (fst (cut_at (CHR ''/'') rest)) then None
      else if has_prefix rest ''//'' \<and> (scheme u \<noteq> [] \<or> \<not> has_prefix rest ''///'') then
        (let authority = takeWhile (\<lambda>c. c \<noteq> CHR ''/'') (drop 2 rest) in
         case parse_authority g (scheme u) authority of
           None \<Rightarrow> None
         | Some (us, h) \<Rightarrow> set_path (drop (2 + length authority) rest) (u\<lparr>userinfo := us, host := h\<rparr>))
      else set_path rest (if scheme u \<noteq> [] \<and> has_prefix rest ''/'' then u\<lparr>omit_host := True\<rparr> else u))"

definition parse_reference :: "golib \<Rightarrow> string \<Rightarrow> url option" where
  "parse_reference g s =
     (if list_ex control_byte s then None
      else if s = ''*'' then Some (empty_url\<lparr>path := ''*''\<rparr>)
      else case get_scheme s of
        None \<Rightarrow> None
      | Some (sch, rest) \<Rightarrow>
          (let u = empty_url\<lparr>scheme := map lower_char sch\<rparr> in
           if has_suffix rest ''?'' \<and> count_list rest (CHR ''?'') = 1 then
             parse_hierarchy g (butlast rest) (u\<lparr>force_query := True\<rparr>)
           else
             parse_hierarchy g (fst (cut_at (CHR ''?'') rest)) (u\<lparr>raw_query := snd (cut_at (CHR ''?'') rest)\<rparr>)))"

definition url_parse :: "golib \<Rightarrow> string \<Rightarrow> url option" where
  "url_parse g s =
     (case parse_reference g (fst (cut_at (CHR ''#'') s)) of
        None \<Rightarrow> None
      | Some u \<Rightarrow>
          if snd (cut_at (CHR ''#'') s) = [] then Some u else set_fragment (snd (cut_at (CHR ''#'') s)) u)"

subsection \<open>String\<close>

definition valid_encoded :: "url_mode \<Rightarrow> string \<Rightarrow> bool" where
  "valid_encoded mode s =
     list_all (\<lambda>c. c \<in> set (''!$&'' @ [CHR 0x27] @ ''()*+,;=:@[]%'') \<or> \<not> should_escape mode c) s"

definition escaped_part :: "url_mode \<Rightarrow> string \<Rightarrow> string \<Rightarrow> string" where
  "escaped_part mode raw part =
     (if raw \<noteq> [] \<and> valid_encoded mode raw \<and> url_unescape mode raw = Some part then raw
      else if mode = PathMode \<and> part = ''*'' then ''*''
      else url_escape mode part)"

definition user_string :: "string \<times> string option \<Rightarrow> string" where
  "user_string up = url_escape UserMode (fst up) @
     (case snd up of None \<Rightarrow> [] | Some p \<Rightarrow> '':'' @ url_escape UserMode p)"

definition authority_string :: "url \<Rightarrow> string" where
  "authority_string u =
     (if scheme u = [] \<and> host u = [] \<and> userinfo u = None then []
      else if omit_host u \<and> host u = [] \<and> userinfo u = None then []
      else (if host u \<noteq> [] \<or> path u \<noteq> [] \<or> userinfo u \<noteq> None then ''//'' else [])
        @ (case userinfo u of None \<Rightarrow> [] | Some up \<Rightarrow> user_string up @ ''@'')
        @ url_escape HostMode (host u))"

definition url_string :: "url \<Rightarrow> string" where
  "url_string u =
     (let sch = (if scheme u = [] then [] else scheme u @ '':'');
          p = escaped_part PathMode (raw_path u) (path u);
          front = sch @ authority_string u
            @ (if p \<noteq> [] \<and> \<not> has_prefix p ''/'' \<and> host u \<noteq> [] then ''/'' else [])
      in (if opaque u \<noteq> [] then sch @ opaque u
          else front @ (if front = [] \<and> CHR '':'' \<in> set (fst (cut_at (CHR ''/'') p)) then ''./'' else []) @ p)
         @ (if force_query u \<or> raw_query u \<noteq> [] then ''?'' @ raw_query u else [])
         @ (if fragment u \<noteq> [] then ''#'' @ escaped_part FragmentMode (raw_fragment u) (fragment u) else []))"

subsection \<open>What a parsed origin looks like\<close>

definition has_user :: "url \<Rightarrow> bool" where
  "has_user u = (userinfo u \<noteq> None)"

lemma no_user: "\<not> has_user u \<longleftrightarrow> userinfo u = None"
  unfolding has_user_def by blast

lemma cut_at_append: "c \<notin> set a \<Longrightarrow> cut_at c (a @ c # b) = (a, b)"
  by (induction a) (auto simp: cut_at_def)

lemma cut_at_absent: "c \<notin> set s \<Longrightarrow> cut_at c s = (s, [])"
  by (induction s) (auto simp: cut_at_def)

lemma cut_at_cases:
  obtains (absent) "c \<notin> set s" "cut_at c s = (s, [])"
  | (cut) a b where "s = a @ c # b" "c \<notin> set a" "cut_at c s = (a, b)"
  using cut_at_append cut_at_absent by (metis split_list_first)

lemma before_colon_split: "before_colon s = Some (p, r) \<Longrightarrow> s = p @ CHR '':'' # r"
  by (induction s arbitrary: p) (auto split: if_splits)

lemma get_scheme_split: "get_scheme s = Some (sch, rest) \<Longrightarrow> sch \<noteq> [] \<Longrightarrow> s = sch @ CHR '':'' # rest"
  by (auto simp: get_scheme_def before_colon_split split: list.splits if_splits option.splits)

lemma url_unescape_Nil: "url_unescape mode s = Some [] \<Longrightarrow> s = []"
  by (cases s) (auto split: if_splits list.splits option.splits)

lemma last_index_absent: "last_index s [c] < 0 \<longleftrightarrow> c \<notin> set s"
  by (induction s) (auto simp: Let_def has_prefix_def)

lemma set_path_keeps:
  assumes "set_path p u = Some v"
  shows "scheme v = scheme u" "host v = host u" "userinfo v = userinfo u" "raw_query v = raw_query u"
    "fragment v = fragment u" "url_unescape PathMode p = Some (path v)"
  using assms by (auto simp: set_path_def)

definition bare_origin :: "url \<Rightarrow> bool" where
  "bare_origin u = (scheme u \<noteq> [] \<and> host u \<noteq> [] \<and> \<not> has_user u \<and> raw_query u = [] \<and> fragment u = []
     \<and> (path u = [] \<or> path u = ''/''))"

lemma hierarchy_origin:
  assumes "parse_hierarchy g rest u = Some v" and "host u = []" and "host v \<noteq> []" and "userinfo v = None"
    and "path v = [] \<or> path v = ''/''"
  shows "\<exists>authority p. rest = ''//'' @ authority @ p \<and> (p = [] \<or> p = ''/'') \<and> authority \<noteq> []
    \<and> CHR ''/'' \<notin> set authority \<and> CHR ''@'' \<notin> set authority \<and> scheme v = scheme u
    \<and> parse_authority g (scheme u) authority = Some (None, host v)"
proof -
  have "has_prefix rest ''//''"
    using assms by (auto simp: parse_hierarchy_def split: if_splits dest: set_path_keeps(2))
  then obtain r where rest: "rest = ''//'' @ r" by (metis has_prefix_iff prefixE)
  have "scheme u \<noteq> [] \<or> \<not> has_prefix r ''/''"
    using assms by (auto simp: parse_hierarchy_def has_prefix_def rest split: if_splits dest: set_path_keeps(2))
  let ?authority = "takeWhile (\<lambda>c. c \<noteq> CHR ''/'') r" and ?p = "dropWhile (\<lambda>c. c \<noteq> CHR ''/'') r"
  obtain us h where auth: "parse_authority g (scheme u) ?authority = Some (us, h)"
    and v: "set_path ?p (u\<lparr>userinfo := us, host := h\<rparr>) = Some v"
    using assms(1) \<open>scheme u \<noteq> [] \<or> \<not> has_prefix r ''/''\<close> unfolding parse_hierarchy_def
    by (auto simp: has_prefix_def rest Let_def dropWhile_eq_drop split: if_splits option.splits)
  have h: "us = None" "h \<noteq> []" "h = host v" using set_path_keeps(2,3) [OF v] assms(3,4) by simp_all
  then have "CHR ''@'' \<notin> set ?authority"
    using auth last_index_absent [of ?authority "CHR ''@''"]
    by (auto simp: parse_authority_def Let_def split: if_splits option.splits)
  moreover have "?authority \<noteq> []"
    using auth h(2) by (auto simp: parse_authority_def parse_host_def valid_optional_port_def split: if_splits)
  moreover have "?p = [] \<or> ?p = ''/''"
  proof (cases ?p)
    case (Cons c q)
    then have c: "c = CHR ''/''" using hd_dropWhile [of "\<lambda>c. c \<noteq> CHR ''/''" r] by simp
    then have "\<exists>w. path v = c # w \<and> url_unescape PathMode q = Some w"
      using set_path_keeps(6) [OF v] Cons by auto
    then show ?thesis using assms(5) Cons c url_unescape_Nil by auto
  qed simp
  moreover have "CHR ''/'' \<notin> set ?authority" by (auto dest: set_takeWhileD)
  moreover have "scheme v = scheme u" using set_path_keeps(1) [OF v] by simp
  moreover have "parse_authority g (scheme u) ?authority = Some (None, host v)" using auth h by simp
  ultimately show ?thesis using rest takeWhile_dropWhile_id [of "\<lambda>c. c \<noteq> CHR ''/''" r] by metis
qed

lemma hierarchy_keeps:
  "parse_hierarchy g r u0 = Some u \<Longrightarrow> scheme u = scheme u0 \<and> raw_query u = raw_query u0"
  by (auto simp: parse_hierarchy_def Let_def split: if_splits option.splits dest: set_path_keeps(1,4))

text \<open>The rest after the scheme ends in a bare question mark, or has none.\<close>

lemma reference_origin:
  assumes "parse_reference g s = Some u" and "bare_origin u"
  shows "\<exists>sch r tail. s = sch @ CHR '':'' # r @ tail \<and> sch \<noteq> [] \<and> tail \<in> {[], ''?''} \<and> CHR ''?'' \<notin> set r
    \<and> (\<exists>u0. parse_hierarchy g r u0 = Some u \<and> scheme u0 = map lower_char sch \<and> host u0 = [])"
proof -
  obtain sch rest where sch: "get_scheme s = Some (sch, rest)"
    and q: "if has_suffix rest ''?'' \<and> count_list rest (CHR ''?'') = 1
        then parse_hierarchy g (butlast rest) (empty_url\<lparr>scheme := map lower_char sch, force_query := True\<rparr>) = Some u
        else parse_hierarchy g (fst (cut_at (CHR ''?'') rest))
          (empty_url\<lparr>scheme := map lower_char sch, raw_query := snd (cut_at (CHR ''?'') rest)\<rparr>) = Some u"
    using assms by (auto simp: parse_reference_def Let_def bare_origin_def empty_url_def split: if_splits option.splits)
  show ?thesis
  proof (cases "has_suffix rest ''?'' \<and> count_list rest (CHR ''?'') = 1")
    case True
    then obtain r where r: "rest = r @ ''?''" by (metis has_suffix_iff suffix_def)
    then have "CHR ''?'' \<notin> set r" using True by (auto simp: count_list_0_iff)
    moreover have run: "parse_hierarchy g r (empty_url\<lparr>scheme := map lower_char sch, force_query := True\<rparr>) = Some u"
      using q True r by simp
    moreover have "sch \<noteq> []" using hierarchy_keeps [OF run] assms(2) by (auto simp: bare_origin_def empty_url_def)
    ultimately show ?thesis using get_scheme_split [OF sch] r
      by (intro exI [of _ sch] exI [of _ r] exI [of _ "''?''"]) (auto simp: empty_url_def)
  next
    case False
    then have run: "parse_hierarchy g (fst (cut_at (CHR ''?'') rest))
          (empty_url\<lparr>scheme := map lower_char sch, raw_query := snd (cut_at (CHR ''?'') rest)\<rparr>) = Some u"
      using q by simp
    have "sch \<noteq> []" and empty: "snd (cut_at (CHR ''?'') rest) = []"
      using hierarchy_keeps [OF run] assms(2) by (auto simp: bare_origin_def empty_url_def)
    have "CHR ''?'' \<notin> set rest"
    proof (cases rule: cut_at_cases [of "CHR ''?''" rest])
      case (cut a b)
      then have "rest = a @ ''?''" using empty by simp
      then show ?thesis using False cut(2) by (simp add: has_suffix_iff count_list_0_iff)
    qed
    moreover from this have "fst (cut_at (CHR ''?'') rest) = rest" by (simp add: cut_at_absent)
    ultimately show ?thesis using get_scheme_split [OF sch] \<open>sch \<noteq> []\<close> run
      by (intro exI [of _ sch] exI [of _ rest] exI [of _ "[]"]) (auto simp: empty_url_def)
  qed
qed

lemma parse_origin:
  assumes "url_parse g s = Some u" and "bare_origin u"
  shows "\<exists>sch authority p tail. s = sch @ ''://'' @ authority @ p @ tail \<and> map lower_char sch = scheme u
    \<and> authority \<noteq> [] \<and> (\<forall>c \<in> set ''/?#@''. c \<notin> set authority)
    \<and> (p = [] \<or> p = ''/'') \<and> tail \<in> {[], ''?'', ''#'', ''?#''}"
proof -
  let ?a = "fst (cut_at (CHR ''#'') s)"
  have ref: "parse_reference g ?a = Some u \<and> snd (cut_at (CHR ''#'') s) = []"
  proof (cases "snd (cut_at (CHR ''#'') s) = []")
    case False
    then obtain u0 where "set_fragment (snd (cut_at (CHR ''#'') s)) u0 = Some u"
      using assms(1) by (auto simp: url_parse_def split: option.splits)
    then have "url_unescape FragmentMode (snd (cut_at (CHR ''#'') s)) = Some []"
      using assms(2) by (auto simp: set_fragment_def bare_origin_def)
    then show ?thesis using False url_unescape_Nil by blast
  qed (use assms(1) in \<open>simp add: url_parse_def split: option.splits\<close>)
  have s: "(s = ?a \<or> s = ?a @ ''#'') \<and> CHR ''#'' \<notin> set ?a"
    by (cases rule: cut_at_cases [of "CHR ''#''" s]) (use ref in auto)
  obtain sch r tail u0 where a: "?a = sch @ CHR '':'' # r @ tail" "tail \<in> {[], ''?''}" "CHR ''?'' \<notin> set r"
    and run: "parse_hierarchy g r u0 = Some u" "scheme u0 = map lower_char sch" "host u0 = []"
    using reference_origin [OF conjunct1 [OF ref] assms(2)] by blast
  have origin: "host u \<noteq> []" "userinfo u = None" "path u = [] \<or> path u = ''/''"
    using assms(2) by (simp_all add: bare_origin_def no_user)
  obtain authority p where r: "r = ''//'' @ authority @ p" "p = [] \<or> p = ''/''" "authority \<noteq> []"
    "CHR ''/'' \<notin> set authority" "CHR ''@'' \<notin> set authority" "scheme u = scheme u0"
    using hierarchy_origin [OF run(1,3) origin] by blast
  have clean: "CHR ''?'' \<notin> set authority" "CHR ''#'' \<notin> set authority" using a(1,3) r(1) s by auto
  have "s = sch @ ''://'' @ authority @ p @ tail @ (if s = ?a then [] else ''#'')"
    using s a(1) r(1) by auto
  moreover have "tail @ (if s = ?a then [] else ''#'') \<in> {[], ''?'', ''#'', ''?#''}" using a(2) by auto
  moreover have "\<forall>c \<in> set ''/?#@''. c \<notin> set authority" using clean r(4,5) by simp
  moreover have "map lower_char sch = scheme u" using r(6) run(2) by simp
  ultimately show ?thesis using r(2,3) by blast
qed

subsection \<open>A path below an origin\<close>

lemma before_colon_append: "before_colon s = Some (p, r) \<Longrightarrow> before_colon (s @ q) = Some (p, r @ q)"
  by (induction s arbitrary: p) (auto split: if_splits)

lemma get_scheme_append:
  "get_scheme s = Some (sch, r) \<Longrightarrow> sch \<noteq> [] \<Longrightarrow> get_scheme (s @ q) = Some (sch, r @ q)"
  by (cases s) (auto simp: get_scheme_def before_colon_append [of "_ # _", simplified] split: if_splits option.splits
      dest: before_colon_append [where q = q])

text \<open>Parsing where there is neither a query nor a fragment.\<close>

lemma parse_plain:
  assumes "get_scheme s = Some (sch, r)" and "sch \<noteq> []" and "CHR ''?'' \<notin> set s" and "CHR ''#'' \<notin> set s"
    and "\<not> list_ex control_byte s"
  shows "url_parse g s = parse_hierarchy g r (empty_url\<lparr>scheme := map lower_char sch\<rparr>)"
proof -
  have s: "s = sch @ CHR '':'' # r" by (rule get_scheme_split [OF assms(1,2)])
  then have "CHR ''?'' \<notin> set r" using assms(3) by auto
  moreover from this have "\<not> has_suffix r ''?''" by (auto simp: has_suffix_iff suffix_def)
  moreover have "s \<noteq> ''*''" using s by (cases sch) auto
  ultimately show ?thesis using assms
    by (simp add: url_parse_def cut_at_absent parse_reference_def empty_url_def split: option.split)
qed

lemma parse_plain_controls: "url_parse g s = Some u \<Longrightarrow> CHR ''#'' \<notin> set s \<Longrightarrow> \<not> list_ex control_byte s"
  by (auto simp: url_parse_def cut_at_absent parse_reference_def split: if_splits option.splits)

lemma parse_scheme:
  assumes "parse_reference g s = Some u" and "scheme u \<noteq> []"
  shows "\<exists>sch r. get_scheme s = Some (sch, r) \<and> sch \<noteq> []"
proof -
  obtain sch r r' u0 where "get_scheme s = Some (sch, r)" "parse_hierarchy g r' u0 = Some u"
    "scheme u0 = map lower_char sch"
    using assms by (fastforce simp: parse_reference_def Let_def empty_url_def split: if_splits option.splits)
  then show ?thesis using hierarchy_keeps [of g r' u0 u] assms(2) by auto
qed

lemma parse_below_origin:
  assumes "url_parse g s = Some u" and "bare_origin u" and "CHR ''?'' \<notin> set s" and "CHR ''#'' \<notin> set s"
    and "s = [] \<or> last s \<noteq> CHR ''/''"
    and "has_prefix q ''/''" and "CHR ''?'' \<notin> set q" and "CHR ''#'' \<notin> set q" and "\<not> list_ex control_byte q"
    and "url_unescape PathMode q = Some d"
  shows "\<exists>v. url_parse g (s @ q) = Some v \<and> scheme v = scheme u \<and> host v = host u \<and> raw_query v = [] \<and> fragment v = []
    \<and> path v = d \<and> raw_path v = (if url_escape PathMode d = q then [] else q)"
proof -
  have ctl: "\<not> list_ex control_byte s" by (rule parse_plain_controls [OF assms(1,4)])
  obtain sch r where sch: "get_scheme s = Some (sch, r)" "sch \<noteq> []"
    using parse_scheme [of g s u] assms(1,2,4)
    by (auto simp: url_parse_def cut_at_absent bare_origin_def split: option.splits)
  let ?u0 = "empty_url\<lparr>scheme := map lower_char sch\<rparr>"
  have run: "parse_hierarchy g r ?u0 = Some u" using parse_plain [OF sch assms(3,4) ctl, of g] assms(1) by simp
  have origin: "host u \<noteq> []" "userinfo u = None" "path u = [] \<or> path u = ''/''"
    using assms(2) by (simp_all add: bare_origin_def no_user)
  obtain authority p where r: "r = ''//'' @ authority @ p" "p = [] \<or> p = ''/''" "CHR ''/'' \<notin> set authority"
    "parse_authority g (map lower_char sch) authority = Some (None, host u)" "scheme u = map lower_char sch"
    using hierarchy_origin [OF run _ origin] by (auto simp: empty_url_def)
  have "p = []" using r(1,2) assms(5) get_scheme_split [OF sch] by auto
  obtain q' where q: "q = CHR ''/'' # q'" using assms(6) by (cases q) (auto simp: has_prefix_def)
  have "url_parse g (s @ q) = parse_hierarchy g (''//'' @ authority @ q) ?u0"
    using parse_plain [OF get_scheme_append [OF sch, of q] sch(2)] assms(3,4,7-9) ctl r(1) \<open>p = []\<close> by simp
  also have "\<dots> = set_path q (?u0\<lparr>userinfo := None, host := host u\<rparr>)"
  proof -
    have "takeWhile (\<lambda>c. c \<noteq> CHR ''/'') authority = authority"
      using r(3) by (auto simp: takeWhile_eq_all_conv)
    then show ?thesis using r(4) sch(2) q
      by (simp add: parse_hierarchy_def has_prefix_def takeWhile_tail empty_url_def Let_def)
  qed
  finally have "url_parse g (s @ q) = set_path q (?u0\<lparr>userinfo := None, host := host u\<rparr>)" .
  moreover obtain v where v: "set_path q (?u0\<lparr>userinfo := None, host := host u\<rparr>) = Some v"
    "path v = d" "raw_path v = (if url_escape PathMode d = q then [] else q)"
    using assms(10) by (simp add: set_path_def)
  ultimately show ?thesis using set_path_keeps [OF v(1)] r(5) by (simp add: empty_url_def)
qed

end
