(* ===== verification/Go_Duration.thy ===== *)
theory Go_Duration
  imports Go_Errors
begin

section \<open>Durations as time.ParseDuration reads them\<close>

text \<open>
  Numbers with an optional fraction and a unit, one after the other: \<^verbatim>\<open>1h30m\<close>, \<^verbatim>\<open>1.5h\<close>. The sum is
  kept in a 64-bit unsigned integer, tested after every addition. A fraction is computed
  in double precision, which \<open>double_quot\<close> rounds to nearest, ties to even; the values of this
  function neither overflow a double nor come near its denormals.
\<close>

subsection \<open>Double precision\<close>

fun bit_length :: "nat \<Rightarrow> nat" where
  "bit_length n = (if n = 0 then 0 else Suc (bit_length (n div 2)))"

declare bit_length.simps [simp del]

definition round_even :: "nat \<Rightarrow> nat \<Rightarrow> nat" where
  "round_even p q =
     (let d = p div q; r = p mod q in
      if 2 * r < q then d else if q < 2 * r then Suc d else if even d then d else Suc d)"

text \<open>The double nearest to \<open>p / q\<close>, as \<open>(m, e)\<close> for \<open>m * 2 ^ e\<close>, with a mantissa of 53 bits.\<close>

definition double_quot :: "nat \<Rightarrow> nat \<Rightarrow> nat \<times> int" where
  "double_quot p q =
     (if p = 0 then (0, 0)
      else
        (let d = int (bit_length p) - int (bit_length q);
             below = p * 2 ^ nat (- d) < q * 2 ^ nat d;
             e = (if below then d - 1 else d) - 52
         in (round_even (p * 2 ^ nat (- e)) (q * 2 ^ nat e), e)))"

definition truncate_double :: "nat \<times> int \<Rightarrow> nat" where
  "truncate_double me = (fst me * 2 ^ nat (snd me)) div 2 ^ nat (- snd me)"

definition multiply_double :: "nat \<times> int \<Rightarrow> nat \<times> int \<Rightarrow> nat \<times> int" where
  "multiply_double a b =
     (let e = snd a + snd b in double_quot (fst a * fst b * 2 ^ nat e) (2 ^ nat (- e)))"

text \<open>\<^verbatim>\<open>uint64(float64(f) * (float64(unit) / scale))\<close>\<close>

definition fraction_of_unit :: "nat \<Rightarrow> nat \<Rightarrow> nat \<Rightarrow> nat" where
  "fraction_of_unit f unit_ns scale =
     truncate_double (multiply_double (double_quot f 1) (double_quot unit_ns scale))"

subsection \<open>Parsing\<close>

fun leading_int :: "nat \<Rightarrow> string \<Rightarrow> (nat \<times> string) option" where
  "leading_int x [] = Some (x, [])"
| "leading_int x (c # s) =
     (case digit_value c of
        None \<Rightarrow> Some (x, c # s)
      | Some d \<Rightarrow>
          if 2 ^ 63 div 10 < x then None
          else if 2 ^ 63 < x * 10 + d then None
          else leading_int (x * 10 + d) s)"

fun leading_fraction :: "nat \<Rightarrow> nat \<Rightarrow> bool \<Rightarrow> string \<Rightarrow> nat \<times> nat \<times> string" where
  "leading_fraction x scale overflow [] = (x, scale, [])"
| "leading_fraction x scale overflow (c # s) =
     (case digit_value c of
        None \<Rightarrow> (x, scale, c # s)
      | Some d \<Rightarrow>
          if overflow \<or> (2 ^ 63 - 1) div 10 < x \<or> 2 ^ 63 < x * 10 + d then leading_fraction x scale True s
          else leading_fraction (x * 10 + d) (scale * 10) False s)"

definition duration_unit :: "string \<Rightarrow> nat option" where
  "duration_unit u =
     (if u = ''ns'' then Some 1
      else if u = ''us'' \<or> u = [CHR 0xC2, CHR 0xB5, CHR ''s''] \<or> u = [CHR 0xCE, CHR 0xBC, CHR ''s''] then Some 1000
      else if u = ''ms'' then Some 1000000
      else if u = ''s'' then Some 1000000000
      else if u = ''m'' then Some 60000000000
      else if u = ''h'' then Some 3600000000000
      else None)"

definition unit_byte :: "char \<Rightarrow> bool" where
  "unit_byte c = (c \<noteq> CHR ''.'' \<and> digit_value c = None)"

text \<open>One number with its unit: the nanoseconds and what follows.\<close>

definition duration_term :: "string \<Rightarrow> (nat \<times> string) option" where
  "duration_term s =
     (if s = [] \<or> unit_byte (hd s) then None
      else case leading_int 0 s of
        None \<Rightarrow> None
      | Some (v, s1) \<Rightarrow>
          (let (f, scale, s2) = (if has_prefix s1 ''.'' then leading_fraction 0 1 False (tl s1) else (0, 1, s1));
               pre = (s1 \<noteq> s); post = (has_prefix s1 ''.'' \<and> s2 \<noteq> tl s1);
               name = takeWhile unit_byte s2; s3 = dropWhile unit_byte s2
           in if \<not> pre \<and> \<not> post then None
              else case duration_unit name of
                None \<Rightarrow> None
              | Some unit_ns \<Rightarrow>
                  if 2 ^ 63 div unit_ns < v then None
                  else
                    (let total = v * unit_ns + (if 0 < f then fraction_of_unit f unit_ns scale else 0) in
                     if 2 ^ 63 < total then None else Some (total, s3))))"

lemma leading_int_shorter: "leading_int x s = Some (v, t) \<Longrightarrow> length t \<le> length s"
  by (induction x s rule: leading_int.induct) (auto split: option.splits if_splits)

lemma leading_fraction_shorter: "leading_fraction x k b s = (f, scale, t) \<Longrightarrow> length t \<le> length s"
  by (induction x k b s rule: leading_fraction.induct) (fastforce split: option.splits if_splits)+

lemma duration_unit_named: "duration_unit u = Some n \<Longrightarrow> u \<noteq> []"
  by (auto simp: duration_unit_def)

lemma duration_term_shorter:
  assumes "duration_term s = Some (v, t)"
  shows "length t < length s"
proof -
  obtain v1 s1 where s1: "leading_int 0 s = Some (v1, s1)"
    using assms by (auto simp: duration_term_def split: if_splits option.splits)
  obtain f scale s2 where s2: "(if has_prefix s1 ''.'' then leading_fraction 0 1 False (tl s1) else (0, 1, s1)) = (f, scale, s2)"
    by (metis prod.exhaust)
  have "length s2 \<le> length s1"
    using s2 leading_fraction_shorter [of 0 1 False "tl s1" f scale s2] by (auto split: if_splits)
  moreover have "length s1 \<le> length s" by (rule leading_int_shorter [OF s1])
  moreover have "t = dropWhile unit_byte s2" "takeWhile unit_byte s2 \<noteq> []"
    using assms s1 s2 by (auto simp: duration_term_def Let_def split: if_splits option.splits dest: duration_unit_named)
  moreover from this have "length t < length s2"
    by (metis add_less_same_cancel2 length_append length_greater_0_conv takeWhile_dropWhile_id add.commute less_add_same_cancel2)
  ultimately show ?thesis by simp
qed

function duration_sum :: "nat \<Rightarrow> string \<Rightarrow> nat option" where
  "duration_sum d s =
     (if s = [] then Some d
      else case duration_term s of
        None \<Rightarrow> None
      | Some (v, t) \<Rightarrow>
          (let d' = (d + v) mod 2 ^ 64 in if 2 ^ 63 < d' then None else duration_sum d' t))"
  by pat_completeness auto

termination by (relation "measure (\<lambda>(d, s). length s)") (auto dest: duration_term_shorter)

declare duration_sum.simps [simp del]

definition parse_duration :: "string \<Rightarrow> duration option" where
  "parse_duration s =
     (let neg = has_prefix s ''-''; t = (if neg \<or> has_prefix s ''+'' then tl s else s) in
      if t = ''0'' then Some 0
      else if t = [] then None
      else case duration_sum 0 t of
        None \<Rightarrow> None
      | Some d \<Rightarrow>
          if neg then Some (- int d)
          else if int64_max < int d then None
          else Some (int d))"

subsection \<open>Whole numbers of units\<close>

definition duration_text :: "(nat \<times> string) list \<Rightarrow> string" where
  "duration_text ts = concat (map (\<lambda>(n, u). nat_text n @ u) ts)"

definition unit_ns :: "string \<Rightarrow> nat" where
  "unit_ns u = (case duration_unit u of None \<Rightarrow> 0 | Some k \<Rightarrow> k)"

definition total_ns :: "(nat \<times> string) list \<Rightarrow> nat" where
  "total_ns ts = sum_list (map (\<lambda>(n, u). n * unit_ns u) ts)"

lemma leading_int_text: "leading_int 0 (nat_text n @ s) = (if n \<le> 2 ^ 63 then leading_int n s else None)"
proof (induction n arbitrary: s rule: nat_text.induct)
  case (1 n)
  show ?case
  proof (cases "n < 10")
    case True
    then show ?thesis by (subst nat_text.simps) simp
  next
    case False
    have "(n div 10) * 10 + n mod 10 = n" by simp
    then show ?thesis using 1 [OF False, of "digit_char (n mod 10) # s"] False
      by (subst nat_text.simps) (auto simp del: nat_text.simps)
  qed
qed

lemma leading_int_stop: "s = [] \<or> digit_value (hd s) = None \<Longrightarrow> leading_int x s = Some (x, s)"
  by (cases s) auto

lemma duration_unit_bytes:
  assumes "duration_unit u = Some k"
  shows "list_all unit_byte u" "0 < k"
  using assms by (auto simp: duration_unit_def unit_byte_def digit_value_def split: if_splits)

text \<open>A text of terms starts with a digit, so a unit ends where the next term starts.\<close>

lemma nat_text_first: "\<exists>d t. nat_text n = digit_char d # t \<and> d < 10"
  by (metis nat_text_nonempty nat_text_digits list.exhaust list.set_intros(1))

lemma duration_text_first: "duration_text ts = [] \<or> \<not> unit_byte (hd (duration_text ts))"
proof (cases ts)
  case (Cons nu ts')
  obtain d t where "nat_text (fst nu) = digit_char d # t" "d < 10" using nat_text_first by blast
  then show ?thesis using Cons by (cases nu) (simp add: duration_text_def unit_byte_def)
qed (simp add: duration_text_def)

lemma duration_term_text:
  assumes "duration_unit u = Some k" and "s = [] \<or> \<not> unit_byte (hd s)"
  shows "duration_term (nat_text n @ u @ s) = (if n * k \<le> 2 ^ 63 then Some (n * k, s) else None)"
proof -
  note u = duration_unit_bytes [OF assms(1)] duration_unit_named [OF assms(1)]
  obtain c u' where c: "u = c # u'" "unit_byte c" using u by (cases u) auto
  obtain d t where d: "nat_text n = digit_char d # t" "d < 10" using nat_text_first by blast
  have int: "leading_int 0 (nat_text n @ u @ s) = (if n \<le> 2 ^ 63 then Some (n, u @ s) else None)"
    using leading_int_stop [of "u @ s" n] c by (simp add: leading_int_text unit_byte_def)
  have "takeWhile unit_byte (u @ s) = u" "dropWhile unit_byte (u @ s) = s"
    using u(1) assms(2) by (auto simp: list_all_iff takeWhile_append dropWhile_append takeWhile_eq_Nil_iff
        intro!: takeWhile_eq_all_conv [THEN iffD2]) (cases s, auto)+
  moreover have "\<not> has_prefix (u @ s) ''.''" using c by (simp add: has_prefix_def unit_byte_def)
  moreover have "u @ s \<noteq> nat_text n @ u @ s" by simp
  moreover have "\<not> unit_byte (hd (nat_text n @ u @ s))" using d by (simp add: unit_byte_def)
  moreover have "2 ^ 63 div k < n \<longleftrightarrow> 2 ^ 63 < n * k"
    using u(2) by (simp add: div_less_iff_less_mult)
  moreover have "2 ^ 63 < n * k" if "2 ^ 63 < n"
  proof -
    have "n \<le> n * k" using u(2) by (cases k) auto
    with that show ?thesis by (rule order.strict_trans2)
  qed
  ultimately show ?thesis using int d assms(1) by (auto simp: duration_term_def Let_def)
qed

lemma duration_sum_text:
  assumes "list_all (\<lambda>(n, u). duration_unit u \<noteq> None) ts" and "d \<le> 2 ^ 63" and "d + total_ns ts < 2 ^ 64"
  shows "duration_sum d (duration_text ts) = (if d + total_ns ts \<le> 2 ^ 63 then Some (d + total_ns ts) else None)"
  using assms
proof (induction ts arbitrary: d)
  case Nil
  then show ?case by (subst duration_sum.simps) (simp add: duration_text_def total_ns_def)
next
  case (Cons nu ts)
  obtain n u where nu: "nu = (n, u)" by (cases nu)
  obtain k where k: "duration_unit u = Some k" using Cons.prems nu by auto
  have split: "duration_text (nu # ts) = nat_text n @ u @ duration_text ts" by (simp add: duration_text_def nu)
  have total: "total_ns (nu # ts) = n * k + total_ns ts" by (simp add: total_ns_def nu unit_ns_def k)
  have first: "duration_term (duration_text (nu # ts)) = (if n * k \<le> 2 ^ 63 then Some (n * k, duration_text ts) else None)"
    unfolding split by (rule duration_term_text [OF k duration_text_first])
  have "duration_text (nu # ts) \<noteq> []" by (simp add: split)
  moreover have "(d + n * k) mod 2 ^ 64 = d + n * k" using Cons.prems(3) total by simp
  ultimately show ?case
    using first total Cons.IH [of "d + n * k"] Cons.prems
    by (subst duration_sum.simps) (auto simp: Let_def)
qed

text \<open>Any list of terms within 64 bits is read as its sum, and refused above the greatest duration.\<close>

lemma parse_duration_text:
  assumes "ts \<noteq> []" and "list_all (\<lambda>(n, u). duration_unit u \<noteq> None) ts" and "total_ns ts < 2 ^ 64"
  shows "parse_duration (duration_text ts) =
    (if int (total_ns ts) \<le> int64_max then Some (int (total_ns ts)) else None)"
proof -
  obtain n u ts' where ts: "ts = (n, u) # ts'" using assms(1) by (cases ts) auto
  obtain d t where d: "nat_text n = digit_char d # t" "d < 10" using nat_text_first by blast
  have "u \<noteq> []" using assms(2) ts by (auto simp: duration_unit_def)
  then have "duration_text ts \<noteq> ''0''" "duration_text ts \<noteq> []"
    using d by (auto simp: ts duration_text_def Cons_eq_append_conv)
  moreover have "\<not> has_prefix (duration_text ts) ''-''" "\<not> has_prefix (duration_text ts) ''+''"
    using d digit_char_props [OF d(2)] by (simp_all add: ts duration_text_def has_prefix_def)
  ultimately show ?thesis
    using duration_sum_text [OF assms(2), of 0] assms(3) by (simp add: parse_duration_def int64_max_def)
qed

lemma duration_sum_bound: "duration_sum d s = Some v \<Longrightarrow> d \<le> 2 ^ 63 \<Longrightarrow> v \<le> 2 ^ 63"
proof (induction d s rule: duration_sum.induct)
  case (1 d s)
  from 1(2) show ?case
    by (subst (asm) duration_sum.simps) (use 1 in \<open>auto simp: Let_def split: if_splits option.splits prod.splits\<close>)
qed

lemma parse_duration_in_int64 [bounds]: "parse_duration s = Some d \<Longrightarrow> in_int64 d"
  by (auto simp: parse_duration_def Let_def int64_defs dest!: duration_sum_bound split: if_splits option.splits)

end
