(* ===== verification/Config.thy ===== *)
theory Config
  imports Auth_Cache Go_Url Go_Duration "HOL-Library.Multiset"
begin

section \<open>Package config: limits, environment and validation\<close>

text \<open>
  \<^verbatim>\<open>internal/config/config.go\<close>. The environment is a function from names to values (unset is
  the empty string, as os.Getenv has it). Validate walks a Go map of required settings,
  whose order is not fixed: the order is an argument, a function that permutes the list.
\<close>

subsection \<open>Limits\<close>

definition DefaultHTTPAddress :: string where "DefaultHTTPAddress = '':8080''"
definition DefaultAdminAddress :: string where "DefaultAdminAddress = '':9090''"
definition DefaultPresignTTL :: duration where "DefaultPresignTTL = hour"
definition DefaultMaxObjectSize :: int64 where "DefaultMaxObjectSize = 5000000000"
definition MaximumMaxObjectSize :: int64 where "MaximumMaxObjectSize = 5000000000"
definition AuthorizationCacheTTL :: duration where "AuthorizationCacheTTL = minute"
definition AuthorizationCacheSize :: int where "AuthorizationCacheSize = 10000"
definition MaximumBatchObjects :: int where "MaximumBatchObjects = 1000"
definition MaximumBatchRequestSize :: int where "MaximumBatchRequestSize = 10 * 2 ^ 20"
definition ObjectCheckConcurrency :: int where "ObjectCheckConcurrency = 16"

lemmas limits = DefaultHTTPAddress_def DefaultAdminAddress_def DefaultPresignTTL_def
  DefaultMaxObjectSize_def MaximumMaxObjectSize_def AuthorizationCacheTTL_def
  AuthorizationCacheSize_def MaximumBatchObjects_def MaximumBatchRequestSize_def
  ObjectCheckConcurrency_def

subsection \<open>The configuration\<close>

record Config =
  cfg_PublicURL :: string
  cfg_HTTPAddress :: string
  cfg_AdminAddress :: string
  cfg_GitHubAppClientID :: string
  cfg_GitHubAppPrivateKeyPEM :: string
  cfg_GitHubAllowedInstallationIDs :: "int64 list"
  cfg_S3Endpoint :: string
  cfg_S3Region :: string
  cfg_S3Bucket :: string
  cfg_S3UsePathStyle :: bool
  cfg_PresignTTL :: duration
  cfg_MaxObjectSize :: int64
  cfg_LogLevel :: int
  cfg_AllowHTTP :: bool

type_synonym environment = "string \<Rightarrow> string"

subsection \<open>Parsing helpers\<close>

definition envOrDefault :: "environment \<Rightarrow> string \<Rightarrow> string \<Rightarrow> string" where
  "envOrDefault env name fallback = (if env name \<noteq> [] then env name else fallback)"

definition parse_failure :: "string \<Rightarrow> string \<Rightarrow> string \<Rightarrow> err" where
  "parse_failure name function value = Wrapped (''parse '' @ name) (Library (Failed function value))"

definition envBool :: "environment \<Rightarrow> string \<Rightarrow> bool \<Rightarrow> (err, bool) result" where
  "envBool env name fallback =
     (if env name = [] then Inr fallback
      else case parse_bool (env name) of
        None \<Rightarrow> Inl (parse_failure name ''strconv.ParseBool'' (env name))
      | Some b \<Rightarrow> Inr b)"

definition envDuration :: "environment \<Rightarrow> string \<Rightarrow> duration \<Rightarrow> (err, duration) result" where
  "envDuration env name fallback =
     (if env name = [] then Inr fallback
      else case parse_duration (env name) of
        None \<Rightarrow> Inl (parse_failure name ''time.ParseDuration'' (env name))
      | Some d \<Rightarrow> Inr d)"

definition envInt64 :: "environment \<Rightarrow> string \<Rightarrow> int64 \<Rightarrow> (err, int64) result" where
  "envInt64 env name fallback =
     (if env name = [] then Inr fallback
      else case parse_int (env name) of
        None \<Rightarrow> Inl (parse_failure name ''strconv.ParseInt'' (env name))
      | Some i \<Rightarrow> Inr i)"

text \<open>slog levels: debug is -4, info 0, warn 4, error 8.\<close>

definition parseLogLevel :: "golib \<Rightarrow> string \<Rightarrow> (err, int) result" where
  "parseLogLevel g value =
     (let v = ToLower g value in
      if v = ''debug'' then Inr (- 4)
      else if v = ''info'' then Inr 0
      else if v = ''warn'' \<or> v = ''warning'' then Inr 4
      else if v = ''error'' then Inr 8
      else Inl (Message (''invalid GOLFS_LOG_LEVEL '' @ quoted g value)))"

definition ids_name :: string where
  "ids_name = ''GOLFS_GITHUB_ALLOWED_INSTALLATION_IDS''"

fun check_ids :: "int64 set \<Rightarrow> int64 list \<Rightarrow> err option" where
  "check_ids seen [] = None"
| "check_ids seen (i # ids) =
     (if i \<le> 0 then Some (Message (ids_name @ '' contains invalid installation ID '' @ format_int i))
      else if i \<in> seen then
        Some (Message (ids_name @ '' contains duplicate installation ID '' @ format_int i))
      else check_ids (insert i seen) ids)"

definition validateGitHubAllowedInstallationIDs :: "int64 list \<Rightarrow> err option" where
  "validateGitHubAllowedInstallationIDs ids =
     (if ids = [] then Some (Message (ids_name @ '' is required'')) else check_ids {} ids)"

fun parse_parts :: "golib \<Rightarrow> string list \<Rightarrow> (err, int64 list) result" where
  "parse_parts g [] = Inr []"
| "parse_parts g (part # parts) =
     (let p = trim_space part in
      if p = [] then Inl (Message (ids_name @ '' must contain comma-separated positive integers''))
      else case parse_int p of
        None \<Rightarrow> Inl (Message (ids_name @ '' contains invalid installation ID '' @ quoted g p))
      | Some i \<Rightarrow>
          if i \<le> 0 then Inl (Message (ids_name @ '' contains invalid installation ID '' @ quoted g p))
          else bind_result (parse_parts g parts) (\<lambda>ids. Inr (i # ids)))"

definition parseGitHubAllowedInstallationIDs :: "golib \<Rightarrow> string \<Rightarrow> (err, int64 list) result" where
  "parseGitHubAllowedInstallationIDs g value =
     (if trim_space value = [] then Inl (Message (ids_name @ '' is required''))
      else bind_result (parse_parts g (split_on (CHR '','') value))
        (\<lambda>ids. case validateGitHubAllowedInstallationIDs ids of
           Some e \<Rightarrow> Inl e | None \<Rightarrow> Inr ids))"

text \<open>net.SplitHostPort; callers only ask whether it succeeds.\<close>

definition index_of :: "char \<Rightarrow> string \<Rightarrow> nat option" where
  "index_of c s = (if c \<in> set s then Some (length (takeWhile (\<lambda>x. x \<noteq> c) s)) else None)"

definition split_host_port :: "string \<Rightarrow> (string \<times> string) option" where
  "split_host_port s =
     (let i = last_index s '':'' in
      if i < 0 then None
      else if hd s = CHR ''['' then
        (case index_of (CHR '']'') s of
           None \<Rightarrow> None
         | Some e \<Rightarrow>
             if Suc e = nat i \<and> CHR ''['' \<notin> set (drop 1 s) \<and> CHR '']'' \<notin> set (drop (Suc e) s)
             then Some (take (e - 1) (drop 1 s), drop (Suc (nat i)) s)
             else None)
      else if CHR '':'' \<in> set (take (nat i) s) \<or> CHR ''['' \<in> set s \<or> CHR '']'' \<in> set s then None
      else Some (take (nat i) s, drop (Suc (nat i)) s))"

subsection \<open>Validate\<close>

type_synonym map_order = "(string \<times> string) list \<Rightarrow> (string \<times> string) list"

definition required_settings :: "Config \<Rightarrow> (string \<times> string) list" where
  "required_settings c =
     [(''GOLFS_PUBLIC_URL'', cfg_PublicURL c),
      (''GOLFS_GITHUB_APP_CLIENT_ID'', cfg_GitHubAppClientID c),
      (''GOLFS_GITHUB_APP_PRIVATE_KEY_PEM'', cfg_GitHubAppPrivateKeyPEM c),
      (''GOLFS_S3_ENDPOINT'', cfg_S3Endpoint c),
      (''GOLFS_S3_REGION'', cfg_S3Region c),
      (''GOLFS_S3_BUCKET'', cfg_S3Bucket c)]"

definition check_required :: "map_order \<Rightarrow> Config \<Rightarrow> err option" where
  "check_required order c =
     (case find (\<lambda>nv. trim_space (snd nv) = []) (order (required_settings c)) of
        None \<Rightarrow> None
      | Some (name, _) \<Rightarrow> Some (Message (name @ '' is required'')))"

definition check_addresses :: "Config \<Rightarrow> err option" where
  "check_addresses c =
     (if cfg_HTTPAddress c = [] \<or> cfg_AdminAddress c = [] then
        Some (Message ''HTTP listener addresses must not be empty'')
      else if cfg_HTTPAddress c = cfg_AdminAddress c then
        Some (Message ''GOLFS_HTTP_ADDR and GOLFS_ADMIN_ADDR must differ'')
      else if split_host_port (cfg_HTTPAddress c) = None then
        Some (Wrapped ''GOLFS_HTTP_ADDR must be a host:port listener address''
          (Library (Failed ''net.SplitHostPort'' (cfg_HTTPAddress c))))
      else if split_host_port (cfg_AdminAddress c) = None then
        Some (Wrapped ''GOLFS_ADMIN_ADDR must be a host:port listener address''
          (Library (Failed ''net.SplitHostPort'' (cfg_AdminAddress c))))
      else None)"

definition scheme_forbidden :: "Config \<Rightarrow> url \<Rightarrow> bool" where
  "scheme_forbidden c u = (scheme u \<noteq> ''https'' \<and> (\<not> cfg_AllowHTTP c \<or> scheme u \<noteq> ''http''))"

definition check_public_url :: "golib \<Rightarrow> Config \<Rightarrow> err option" where
  "check_public_url g c =
     (case url_parse g (cfg_PublicURL c) of
        None \<Rightarrow> Some (Wrapped ''parse GOLFS_PUBLIC_URL'' (Library (Failed ''url.Parse'' (cfg_PublicURL c))))
      | Some u \<Rightarrow>
          if scheme u = [] \<or> host u = [] \<or> has_user u \<or> raw_query u \<noteq> [] \<or> fragment u \<noteq> [] then
            Some (Message ''GOLFS_PUBLIC_URL must be an absolute origin without credentials, query, or fragment'')
          else if path u \<noteq> [] \<and> path u \<noteq> ''/'' then
            Some (Message ''GOLFS_PUBLIC_URL must not contain a path'')
          else if scheme_forbidden c u then
            Some (Message ''GOLFS_PUBLIC_URL must use HTTPS unless GOLFS_DEV_ALLOW_HTTP=true'')
          else None)"

definition check_s3_url :: "golib \<Rightarrow> Config \<Rightarrow> err option" where
  "check_s3_url g c =
     (case url_parse g (cfg_S3Endpoint c) of
        None \<Rightarrow> Some (Message ''GOLFS_S3_ENDPOINT must be an absolute URL'')
      | Some u \<Rightarrow>
          if scheme u = [] \<or> host u = [] then
            Some (Message ''GOLFS_S3_ENDPOINT must be an absolute URL'')
          else if has_user u \<or> raw_query u \<noteq> [] \<or> fragment u \<noteq> [] then
            Some (Message ''GOLFS_S3_ENDPOINT must not contain credentials, a query, or a fragment'')
          else if scheme_forbidden c u then
            Some (Message ''GOLFS_S3_ENDPOINT must use HTTPS unless GOLFS_DEV_ALLOW_HTTP=true'')
          else None)"

definition check_ranges :: "Config \<Rightarrow> err option" where
  "check_ranges c =
     (if cfg_PresignTTL c \<le> 0 \<or> 7 * 24 * hour < cfg_PresignTTL c then
        Some (Message ''GOLFS_PRESIGN_TTL must be greater than zero and at most 168h'')
      else if cfg_MaxObjectSize c \<le> 0 \<or> MaximumMaxObjectSize < cfg_MaxObjectSize c then
        Some (Message (''GOLFS_MAX_OBJECT_SIZE must be between 1 and '' @ format_int MaximumMaxObjectSize))
      else None)"

text \<open>The checks in the order of the source; the first failure is the result.\<close>

fun first_error :: "err option list \<Rightarrow> err option" where
  "first_error [] = None"
| "first_error (None # es) = first_error es"
| "first_error (Some e # es) = Some e"

definition config_Validate :: "golib \<Rightarrow> map_order \<Rightarrow> Config \<Rightarrow> err option" where
  "config_Validate g order c =
     first_error [check_required order c,
       validateGitHubAllowedInstallationIDs (cfg_GitHubAllowedInstallationIDs c),
       check_addresses c, check_public_url g c, check_s3_url g c, check_ranges c]"

subsection \<open>Load\<close>

definition base_config :: "environment \<Rightarrow> Config" where
  "base_config env =
     \<lparr>cfg_PublicURL = trim_right_chars ''/'' (env ''GOLFS_PUBLIC_URL''),
      cfg_HTTPAddress = envOrDefault env ''GOLFS_HTTP_ADDR'' DefaultHTTPAddress,
      cfg_AdminAddress = envOrDefault env ''GOLFS_ADMIN_ADDR'' DefaultAdminAddress,
      cfg_GitHubAppClientID = env ''GOLFS_GITHUB_APP_CLIENT_ID'',
      cfg_GitHubAppPrivateKeyPEM = env ''GOLFS_GITHUB_APP_PRIVATE_KEY_PEM'',
      cfg_GitHubAllowedInstallationIDs = [],
      cfg_S3Endpoint = trim_right_chars ''/'' (env ''GOLFS_S3_ENDPOINT''),
      cfg_S3Region = env ''GOLFS_S3_REGION'',
      cfg_S3Bucket = env ''GOLFS_S3_BUCKET'',
      cfg_S3UsePathStyle = False,
      cfg_PresignTTL = DefaultPresignTTL,
      cfg_MaxObjectSize = DefaultMaxObjectSize,
      cfg_LogLevel = 0,
      cfg_AllowHTTP = False\<rparr>"

definition config_Load :: "golib \<Rightarrow> map_order \<Rightarrow> environment \<Rightarrow> (err, Config) result" where
  "config_Load g order env =
     bind_result (parseGitHubAllowedInstallationIDs g (env ids_name)) (\<lambda>ids.
     bind_result (envBool env ''GOLFS_DEV_ALLOW_HTTP'' False) (\<lambda>allow.
     bind_result (envBool env ''GOLFS_S3_USE_PATH_STYLE'' False) (\<lambda>path_style.
     bind_result (envDuration env ''GOLFS_PRESIGN_TTL'' DefaultPresignTTL) (\<lambda>ttl.
     bind_result (envInt64 env ''GOLFS_MAX_OBJECT_SIZE'' DefaultMaxObjectSize) (\<lambda>size.
     bind_result (parseLogLevel g (envOrDefault env ''GOLFS_LOG_LEVEL'' ''info'')) (\<lambda>level.
       (let cfg = (base_config env)
              \<lparr>cfg_GitHubAllowedInstallationIDs := ids, cfg_AllowHTTP := allow,
               cfg_S3UsePathStyle := path_style, cfg_PresignTTL := ttl,
               cfg_MaxObjectSize := size, cfg_LogLevel := level\<rparr>
        in case config_Validate g order cfg of Some e \<Rightarrow> Inl e | None \<Rightarrow> Inr cfg)))))))"

subsection \<open>The checks, declaratively\<close>

lemma check_ids_None:
  "check_ids seen ids = None \<longleftrightarrow>
     list_all (\<lambda>i. 0 < i) ids \<and> distinct ids \<and> set ids \<inter> seen = {}"
  by (induction seen ids rule: check_ids.induct) auto

lemma validate_ids_None:
  "validateGitHubAllowedInstallationIDs ids = None \<longleftrightarrow>
     ids \<noteq> [] \<and> list_all (\<lambda>i. 0 < i) ids \<and> distinct ids"
  by (simp add: validateGitHubAllowedInstallationIDs_def check_ids_None)

lemma first_error_None: "first_error es = None \<longleftrightarrow> list_all (\<lambda>e. e = None) es"
  by (induction es rule: first_error.induct) auto

lemma check_required_None:
  assumes "mset (order (required_settings c)) = mset (required_settings c)"
  shows "check_required order c = None \<longleftrightarrow>
    list_all (\<lambda>nv. trim_space (snd nv) \<noteq> []) (required_settings c)"
proof -
  have "set (order (required_settings c)) = set (required_settings c)"
    using assms by (metis set_mset_mset)
  then show ?thesis
    by (auto simp: check_required_def find_None_iff list_all_iff split: option.splits dest: find_SomeD)
qed

lemma plain_in_trim_left: "plain c \<Longrightarrow> c \<in> set s \<Longrightarrow> c \<in> set (trim_left_space s)"
  by (induction s rule: trim_left_space.induct) auto

lemma plain_in_trim_right: "plain c \<Longrightarrow> c \<in> set s \<Longrightarrow> c \<in> set (trim_right_space_rev s)"
  by (induction s rule: trim_right_space_rev.induct) auto

lemma trim_space_keeps_plain: "plain c \<Longrightarrow> c \<in> set s \<Longrightarrow> trim_space s \<noteq> []"
  using plain_in_trim_left [of c s] plain_in_trim_right [of c "rev (trim_left_space s)"]
  by (auto simp: trim_space_def)

lemma digit_plain: "d < 10 \<Longrightarrow> plain (digit_char d) \<and> digit_char d \<noteq> CHR '',''"
  by (drule less_10_cases) (auto simp: digit_char_def plain_def)

lemma format_pos_plain:
  "0 < i \<Longrightarrow> c \<in> set (format_int i) \<Longrightarrow> plain c \<and> c \<noteq> CHR '',''"
  using nat_text_digits [of c "nat i"] digit_plain by (auto simp: format_int_def)

definition padded :: "bool \<times> int \<Rightarrow> string" where
  "padded bi = (if fst bi then CHR '' '' # format_int (snd bi) else format_int (snd bi))"

lemma trim_padded: "0 < snd bi \<Longrightarrow> trim_space (padded bi) = format_int (snd bi)"
  using format_pos_plain [of "snd bi"]
  by (simp add: padded_def trim_space_plain trim_space_blank_plain)

lemma parse_parts_padded:
  "list_all (\<lambda>bi. 0 < snd bi \<and> in_int64 (snd bi)) xs \<Longrightarrow>
     parse_parts g (map padded xs) = Inr (map snd xs)"
  by (induction xs) (auto simp: trim_padded parse_format_int Let_def)

lemma parse_parts_valid:
  "parse_parts g parts = Inr ids \<Longrightarrow>
     length ids = length parts \<and> list_all (\<lambda>i. 0 < i \<and> in_int64 i) ids"
proof (induction parts arbitrary: ids)
  case (Cons part parts)
  then show ?case
    by (auto simp: Let_def bind_result_Inr_iff bounds split: if_splits option.splits)
qed simp

subsection \<open>Properties of the configuration\<close>

text \<open>
  The allowlist text round-trips: any non-empty list of distinct positive IDs, written
  in decimal and separated by commas with or without a blank, parses to that list.
\<close>

theorem installation_ids_roundtrip:
  assumes "xs \<noteq> []" "distinct (map snd xs)"
    and "list_all (\<lambda>bi. 0 < snd bi \<and> in_int64 (snd bi)) xs"
  shows "parseGitHubAllowedInstallationIDs g (join_with (CHR '','') (map padded xs)) = Inr (map snd xs)"
proof -
  let ?v = "join_with (CHR '','') (map padded xs)"
  have no_comma: "CHR '','' \<notin> set s" if "s \<in> set (map padded xs)" for s
    using that assms(3) format_pos_plain by (fastforce simp: padded_def list_all_iff)
  have split: "split_on (CHR '','') ?v = map padded xs"
    using assms(1) no_comma by (intro split_on_join) auto
  obtain bi ys where xs: "xs = bi # ys" using assms(1) by (cases xs) auto
  let ?c = "hd (format_int (snd bi))"
  have c: "?c \<in> set (format_int (snd bi))" by simp
  then have "?c \<in> set (padded bi)" by (simp add: padded_def)
  then have "?c \<in> set ?v" using xs by (cases "map padded ys") auto
  moreover have "plain ?c" using format_pos_plain [OF _ c] assms(3) xs by simp
  ultimately have "trim_space ?v \<noteq> []" by (rule trim_space_keeps_plain [rotated])
  moreover have "validateGitHubAllowedInstallationIDs (map snd xs) = None"
    using assms by (auto simp: validate_ids_None list_all_iff)
  ultimately show ?thesis
    using parse_parts_padded [OF assms(3)]
    by (simp add: parseGitHubAllowedInstallationIDs_def split)
qed

theorem installation_ids_roundtrip_witness:
  "parseGitHubAllowedInstallationIDs lib0 (join_with (CHR '','') (map padded [(True, 123), (True, 456), (False, 789)]))
    = Inr [123, 456, 789]"
  using installation_ids_roundtrip [of "[(True, 123), (True, 456), (False, 789)]" lib0]
  by (simp add: int64_defs)

text \<open>
  Whatever the text, a parsed allowlist is non-empty, has no duplicate and holds
  positive 64-bit IDs only; there is one ID per comma-separated part.
\<close>

theorem installation_ids_valid:
  assumes "parseGitHubAllowedInstallationIDs g value = Inr ids"
  shows "ids \<noteq> [] \<and> distinct ids \<and> list_all (\<lambda>i. 0 < i \<and> in_int64 i) ids
    \<and> length ids = length (split_on (CHR '','') value)"
proof -
  from assms obtain parsed where "parse_parts g (split_on (CHR '','') value) = Inr parsed"
    "validateGitHubAllowedInstallationIDs parsed = None" "ids = parsed"
    by (auto simp: parseGitHubAllowedInstallationIDs_def bind_result_Inr_iff
        split: if_splits option.splits)
  then show ?thesis by (auto simp: validate_ids_None dest: parse_parts_valid)
qed

theorem installation_ids_valid_witness:
  "[123, 456] \<noteq> ([] :: int list) \<and> distinct [123, 456 :: int]"
proof -
  have "parseGitHubAllowedInstallationIDs lib0 '' 123, 456 '' = Inr [123, 456]" by code_simp
  from installation_ids_valid [OF this] show ?thesis by blast
qed

lemma config_Validate_None:
  assumes "mset (order (required_settings c)) = mset (required_settings c)"
  shows "config_Validate g order c = None \<longleftrightarrow>
    list_all (\<lambda>nv. trim_space (snd nv) \<noteq> []) (required_settings c)
    \<and> validateGitHubAllowedInstallationIDs (cfg_GitHubAllowedInstallationIDs c) = None
    \<and> check_addresses c = None \<and> check_public_url g c = None \<and> check_s3_url g c = None
    \<and> check_ranges c = None"
  using check_required_None [of order c, OF assms] by (simp add: config_Validate_def first_error_None)

text \<open>
  Validation does not depend on the order in which Go walks the map of required
  settings: only which missing setting is reported first does.
\<close>

theorem validate_order_independent:
  assumes "mset (order (required_settings c)) = mset (required_settings c)"
    and "mset (order' (required_settings c)) = mset (required_settings c)"
  shows "(config_Validate g order c = None) = (config_Validate g order' c = None)"
  using assms by (simp add: config_Validate_None)

definition cfg0 :: Config where
  "cfg0 = \<lparr>cfg_PublicURL = ''https://lfs.example.test'', cfg_HTTPAddress = '':8080'',
     cfg_AdminAddress = '':9090'', cfg_GitHubAppClientID = ''Iv1'', cfg_GitHubAppPrivateKeyPEM = ''pem'',
     cfg_GitHubAllowedInstallationIDs = [42], cfg_S3Endpoint = ''https://s3.example.test'',
     cfg_S3Region = ''fsn1'', cfg_S3Bucket = ''b'', cfg_S3UsePathStyle = False,
     cfg_PresignTTL = 3600000000000, cfg_MaxObjectSize = 5000000000, cfg_LogLevel = 0,
     cfg_AllowHTTP = False\<rparr>"

theorem validate_order_independent_witness:
  "config_Validate lib0 (\<lambda>xs. xs) cfg0 = None \<and> config_Validate lib0 rev cfg0 = None"
proof -
  have "config_Validate lib0 (\<lambda>xs. xs) cfg0 = None" by code_simp
  then show ?thesis
    using validate_order_independent [of "\<lambda>xs. xs" cfg0 rev lib0] by simp
qed

lemma config_Load_Validate:
  "config_Load g order env = Inr c \<Longrightarrow> config_Validate g order c = None"
  by (auto simp: config_Load_def bind_result_Inr_iff Let_def split: option.splits)

definition url_safe :: "golib \<Rightarrow> bool \<Rightarrow> string \<Rightarrow> bool" where
  "url_safe g allow_http s =
     (case url_parse g s of None \<Rightarrow> False
      | Some u \<Rightarrow> host u \<noteq> [] \<and> \<not> has_user u \<and> raw_query u = [] \<and> fragment u = []
          \<and> (scheme u = ''https'' \<or> allow_http \<and> scheme u = ''http''))"

text \<open>The texts an origin may have.\<close>

definition origin_text :: "bool \<Rightarrow> string \<Rightarrow> bool" where
  "origin_text allow_http s =
     (\<exists>sch authority p tail. s = sch @ ''://'' @ authority @ p @ tail
        \<and> (map lower_char sch = ''https'' \<or> allow_http \<and> map lower_char sch = ''http'')
        \<and> authority \<noteq> [] \<and> (\<forall>c \<in> set ''/?#@''. c \<notin> set authority)
        \<and> (p = [] \<or> p = ''/'') \<and> tail \<in> {[], ''?'', ''#'', ''?#''})"

lemma public_url_origin:
  assumes "check_public_url g c = None"
  shows "\<exists>u. url_parse g (cfg_PublicURL c) = Some u \<and> bare_origin u \<and> \<not> scheme_forbidden c u"
  using assms by (auto simp: check_public_url_def bare_origin_def split: option.splits if_splits)

lemma public_url_text:
  assumes "check_public_url g c = None"
  shows "origin_text (cfg_AllowHTTP c) (cfg_PublicURL c)"
proof -
  obtain u where u: "url_parse g (cfg_PublicURL c) = Some u" "bare_origin u" "\<not> scheme_forbidden c u"
    using public_url_origin [OF assms] by blast
  have "scheme u = ''https'' \<or> cfg_AllowHTTP c \<and> scheme u = ''http''" using u(3) by (auto simp: scheme_forbidden_def)
  with parse_origin [OF u(1,2)] show ?thesis unfolding origin_text_def by metis
qed

text \<open>
  C34. Loading fails closed: in a configuration that loads, the public URL is a scheme, two
  slashes and a host, with nothing after it but perhaps a slash and an empty query or
  fragment; the scheme of both URLs is HTTPS unless plain HTTP was allowed, and neither
  carries credentials, a query or a fragment; the listener addresses differ; the allowlist is
  valid; the presign TTL is at most 168 hours and the object size limit between 1 and the
  protocol maximum.
\<close>

theorem config_load_safe:
  assumes "config_Load g order env = Inr c"
    and "mset (order (required_settings c)) = mset (required_settings c)"
  shows "origin_text (cfg_AllowHTTP c) (cfg_PublicURL c)
    \<and> url_safe g (cfg_AllowHTTP c) (cfg_PublicURL c) \<and> url_safe g (cfg_AllowHTTP c) (cfg_S3Endpoint c)
    \<and> cfg_HTTPAddress c \<noteq> cfg_AdminAddress c
    \<and> cfg_GitHubAllowedInstallationIDs c \<noteq> [] \<and> distinct (cfg_GitHubAllowedInstallationIDs c)
    \<and> list_all (\<lambda>i. 0 < i) (cfg_GitHubAllowedInstallationIDs c)
    \<and> 0 < cfg_PresignTTL c \<and> cfg_PresignTTL c \<le> 168 * hour
    \<and> 1 \<le> cfg_MaxObjectSize c \<and> cfg_MaxObjectSize c \<le> 5000000000"
proof -
  note v = config_Load_Validate [OF assms(1), unfolded config_Validate_None [of order c g, OF assms(2)]]
  have "url_safe g (cfg_AllowHTTP c) (cfg_PublicURL c)" "url_safe g (cfg_AllowHTTP c) (cfg_S3Endpoint c)"
    using v by (auto simp: url_safe_def check_public_url_def check_s3_url_def scheme_forbidden_def
        split: option.splits if_splits)
  moreover have "cfg_HTTPAddress c \<noteq> cfg_AdminAddress c"
    using v by (auto simp: check_addresses_def split: if_splits)
  moreover have "0 < cfg_PresignTTL c \<and> cfg_PresignTTL c \<le> 168 * hour
      \<and> 1 \<le> cfg_MaxObjectSize c \<and> cfg_MaxObjectSize c \<le> 5000000000"
    using v by (auto simp: check_ranges_def MaximumMaxObjectSize_def split: if_splits)
  ultimately show ?thesis using v public_url_text [of g c] by (simp add: validate_ids_None)
qed

definition env0 :: environment where
  "env0 name =
     (if name = ''GOLFS_PUBLIC_URL'' then ''https://lfs.example.test/''
      else if name = ''GOLFS_GITHUB_APP_CLIENT_ID'' then ''Iv1''
      else if name = ''GOLFS_GITHUB_APP_PRIVATE_KEY_PEM'' then ''pem''
      else if name = ''GOLFS_GITHUB_ALLOWED_INSTALLATION_IDS'' then ''42''
      else if name = ''GOLFS_S3_ENDPOINT'' then ''https://s3.example.test''
      else if name = ''GOLFS_S3_REGION'' then ''fsn1''
      else if name = ''GOLFS_S3_BUCKET'' then ''b''
      else [])"

lemma config_Load_env0: "config_Load lib0 (\<lambda>xs. xs) env0 = Inr cfg0"
  by code_simp

theorem config_load_safe_witness:
  "0 < cfg_PresignTTL cfg0 \<and> url_safe lib0 False (cfg_PublicURL cfg0)"
  using config_load_safe [OF config_Load_env0] by (simp add: cfg0_def)

text \<open>
  Unset optional variables take their documented defaults in every configuration that
  loads: listeners on ports 8080 and 9090, a one-hour presign TTL, 5,000,000,000 bytes,
  level info, virtual-host addressing and no plain HTTP.
\<close>

theorem config_load_defaults:
  assumes "config_Load g order env = Inr c"
    and "list_all (\<lambda>name. env name = []) [''GOLFS_HTTP_ADDR'', ''GOLFS_ADMIN_ADDR'', ''GOLFS_PRESIGN_TTL'',
      ''GOLFS_MAX_OBJECT_SIZE'', ''GOLFS_LOG_LEVEL'', ''GOLFS_S3_USE_PATH_STYLE'', ''GOLFS_DEV_ALLOW_HTTP'']"
  shows "cfg_HTTPAddress c = '':8080'' \<and> cfg_AdminAddress c = '':9090'' \<and> cfg_PresignTTL c = hour
    \<and> cfg_MaxObjectSize c = 5000000000 \<and> cfg_LogLevel c = 0
    \<and> \<not> cfg_S3UsePathStyle c \<and> \<not> cfg_AllowHTTP c"
proof -
  have "parseLogLevel g ''info'' = Inr 0"
    by (simp add: parseLogLevel_def to_lower_def ascii_string_def lower_char_def)
  with assms show ?thesis
    by (auto simp: config_Load_def bind_result_Inr_iff Let_def envBool_def envDuration_def
        envInt64_def envOrDefault_def base_config_def limits split: option.splits)
qed

theorem config_load_defaults_witness: "cfg_HTTPAddress cfg0 = '':8080'' \<and> cfg_PresignTTL cfg0 = hour"
  using config_load_defaults [OF config_Load_env0] by (simp add: env0_def)

text \<open>
  The presign TTL may be written as any list of whole numbers with units: the parsed value
  is their sum in nanoseconds, and a text whose sum exceeds the greatest duration is an error.
\<close>

theorem duration_setting_exact:
  assumes "env name = duration_text ts" and "ts \<noteq> []"
    and "list_all (\<lambda>(n, u). duration_unit u \<noteq> None) ts" and "total_ns ts < 2 ^ 64"
  shows "envDuration env name fallback =
    (if int (total_ns ts) \<le> int64_max then Inr (int (total_ns ts))
     else Inl (parse_failure name ''time.ParseDuration'' (env name)))"
proof -
  have "duration_text ts \<noteq> []" using assms(2) by (cases ts) (auto simp: duration_text_def)
  then show ?thesis using parse_duration_text [OF assms(2-4)] assms(1) by (simp add: envDuration_def)
qed

lemma duration_setting_exact_witness:
  "envDuration (\<lambda>_. ''1h30m'') ''GOLFS_PRESIGN_TTL'' hour = Inr (90 * minute)"
proof -
  have ts: "''1h30m'' = duration_text [(1, ''h''), (30, ''m'')]"
    by (simp add: duration_text_def nat_text.simps digit_char_def)
  have total: "total_ns [(1, ''h''), (30, ''m'')] = 5400000000000"
    by (simp add: total_ns_def unit_ns_def duration_unit_def)
  have "list_all (\<lambda>(n, u). duration_unit u \<noteq> None) [(1::nat, ''h''), (30, ''m'')]" by (simp add: duration_unit_def)
  then have "envDuration (\<lambda>_. ''1h30m'') ''GOLFS_PRESIGN_TTL'' hour = Inr (int 5400000000000)"
    using duration_setting_exact [of "\<lambda>_. ''1h30m''" "''GOLFS_PRESIGN_TTL''", OF ts, where fallback = hour]
    unfolding total by (simp add: int64_max_def)
  then show ?thesis by (simp add: duration_units)
qed

end
