(* ===== verification/Go_Json.thy ===== *)
theory Go_Json
  imports Go_Errors
begin

section \<open>Decoding JSON values into structs\<close>

text \<open>
  encoding/json in two steps. The first, between bytes and values, is the matter of the
  theories \<open>Go_Json_String\<close> and \<open>Go_Json_Text\<close>. The second, storing a value into the fields of
  a Go struct, is here: a member is matched to a field by its exact name, else by case folding; members are
  stored in order, so a later duplicate overwrites; unknown members are skipped; null
  leaves a scalar as it is and empties a slice; a mismatch of kinds or an integer out of
  range is an error. Numbers keep their literal text. A slice that is stored twice (a
  duplicate member) reuses the elements of the first value.
\<close>

datatype json =
    JNull
  | JBool bool
  | JNum string
  | JStr string
  | JArr "json list"
  | JObj "(string \<times> json) list"

type_synonym 'a decoder = "json \<Rightarrow> 'a \<Rightarrow> 'a option"
type_synonym 's fields = "(string \<times> 's decoder) list"

definition decode_int :: "int64 decoder" where
  "decode_int j old = (case j of JNull \<Rightarrow> Some old | JNum t \<Rightarrow> parse_int t | _ \<Rightarrow> None)"

definition decode_string :: "string decoder" where
  "decode_string j old = (case j of JNull \<Rightarrow> Some old | JStr s \<Rightarrow> Some s | _ \<Rightarrow> None)"

definition decode_bool :: "bool decoder" where
  "decode_bool j old = (case j of JNull \<Rightarrow> Some old | JBool b \<Rightarrow> Some b | _ \<Rightarrow> None)"

definition decode_raw :: "json decoder" where
  "decode_raw j old = Some j"

fun decode_elems :: "'a decoder \<Rightarrow> 'a \<Rightarrow> 'a list \<Rightarrow> json list \<Rightarrow> 'a list option" where
  "decode_elems d zero old [] = Some []"
| "decode_elems d zero old (j # js) =
     (case d j (case old of [] \<Rightarrow> zero | v # _ \<Rightarrow> v) of
        None \<Rightarrow> None
      | Some v \<Rightarrow> map_option ((#) v) (decode_elems d zero (tl old) js))"

definition decode_list :: "'a decoder \<Rightarrow> 'a \<Rightarrow> 'a list decoder" where
  "decode_list d zero j old =
     (case j of JNull \<Rightarrow> Some [] | JArr js \<Rightarrow> decode_elems d zero old js | _ \<Rightarrow> None)"

definition find_field :: "'s fields \<Rightarrow> string \<Rightarrow> 's decoder option" where
  "find_field fs name =
     (case map_of fs name of
        Some d \<Rightarrow> Some d
      | None \<Rightarrow> map_option snd (find (\<lambda>f. equal_fold (fst f) name) fs))"

fun decode_members :: "'s fields \<Rightarrow> (string \<times> json) list \<Rightarrow> 's \<Rightarrow> 's option" where
  "decode_members fs [] s = Some s"
| "decode_members fs ((name, j) # ms) s =
     (case find_field fs name of
        None \<Rightarrow> decode_members fs ms s
      | Some d \<Rightarrow>
          (case d j s of None \<Rightarrow> None | Some s' \<Rightarrow> decode_members fs ms s'))"

definition decode_object :: "'s fields \<Rightarrow> 's decoder" where
  "decode_object fs j s =
     (case j of JNull \<Rightarrow> Some s | JObj ms \<Rightarrow> decode_members fs ms s | _ \<Rightarrow> None)"

text \<open>A field given by its getter and setter.\<close>

definition field :: "string \<Rightarrow> 'a decoder \<Rightarrow> ('s \<Rightarrow> 'a) \<Rightarrow> ('a \<Rightarrow> 's \<Rightarrow> 's) \<Rightarrow> string \<times> 's decoder" where
  "field name d get put = (name, \<lambda>j s. map_option (\<lambda>v. put v s) (d j (get s)))"

lemma decode_int_in_int64 [bounds]:
  "decode_int j old = Some i \<Longrightarrow> in_int64 old \<Longrightarrow> in_int64 i"
  by (auto simp: decode_int_def bounds split: json.splits)

text \<open>A property every field decoder keeps is kept by the whole object.\<close>

lemma find_field_in: "find_field fs name = Some d \<Longrightarrow> d \<in> snd ` set fs"
proof (cases "map_of fs name")
  case (Some e)
  moreover assume "find_field fs name = Some d"
  ultimately have "(name, d) \<in> set fs"
    by (auto simp: find_field_def dest: map_of_SomeD)
  then show ?thesis by force
next
  case None
  moreover assume "find_field fs name = Some d"
  ultimately obtain f where "find (\<lambda>f. equal_fold (fst f) name) fs = Some f" "d = snd f"
    by (auto simp: find_field_def)
  then show ?thesis by (auto simp: find_Some_iff)
qed

lemma decode_members_inv:
  assumes "\<And>d j s s'. d \<in> snd ` set fs \<Longrightarrow> I s \<Longrightarrow> d j s = Some s' \<Longrightarrow> I s'"
    and "I s" and "decode_members fs ms s = Some s'"
  shows "I s'"
  using assms(2,3)
proof (induction ms arbitrary: s)
  case (Cons m ms)
  obtain name j where m: "m = (name, j)" by (cases m)
  show ?case
  proof (cases "find_field fs name")
    case None
    with Cons m show ?thesis by simp
  next
    case (Some d)
    with Cons.prems m obtain t where t: "d j s = Some t" "decode_members fs ms t = Some s'"
      by (auto split: option.splits)
    from Some have "d \<in> snd ` set fs" by (rule find_field_in)
    then have "I t" using Cons.prems(1) t(1) by (rule assms(1))
    then show ?thesis using t(2) by (rule Cons.IH)
  qed
qed simp

lemma decode_object_inv:
  assumes "\<And>d j s s'. d \<in> snd ` set fs \<Longrightarrow> I s \<Longrightarrow> d j s = Some s' \<Longrightarrow> I s'"
    and "I s" and "decode_object fs j s = Some s'"
  shows "I s'"
proof (cases j)
  case (JObj ms)
  then have "decode_members fs ms s = Some s'" using assms(3) by (simp add: decode_object_def)
  with assms(1,2) show ?thesis by (rule decode_members_inv)
qed (use assms in \<open>simp_all add: decode_object_def\<close>)

text \<open>The equations a literal object is decoded by.\<close>

lemmas decode_simps = decode_object_def decode_int_def decode_string_def decode_bool_def
  decode_list_def decode_raw_def find_field_def field_def

end
