(* ===== verification/Go_Json_String.thy ===== *)
theory Go_Json_String
  imports Go_Json
begin

section \<open>Strings in JSON text\<close>

text \<open>
  How encoding/json writes and reads a string. The encoder escapes quotes, backslashes, control
  characters, the HTML characters and the two Unicode line separators; the scanner takes the
  bytes up to the closing quote, and unquoting resolves the escapes. Invalid UTF-8 and lone
  surrogates become the replacement character.
\<close>

subsection \<open>UTF-8\<close>

definition between :: "nat \<Rightarrow> nat \<Rightarrow> char \<Rightarrow> bool" where
  "between lo hi c = (lo \<le> byte c \<and> byte c \<le> hi)"

abbreviation continuation :: "char \<Rightarrow> bool" where
  "continuation \<equiv> between 128 191"

text \<open>The width of the encoded character a string starts with; 0 when there is none.\<close>

fun utf8_width :: "string \<Rightarrow> nat" where
  "utf8_width [] = 0"
| "utf8_width [a] = (if byte a < 128 then 1 else 0)"
| "utf8_width [a, b] =
     (if byte a < 128 then 1 else if between 194 223 a \<and> continuation b then 2 else 0)"
| "utf8_width [a, b, c] =
     (if byte a < 128 then 1 else if between 194 223 a \<and> continuation b then 2
      else if between 224 239 a \<and> between (if byte a = 224 then 160 else 128) (if byte a = 237 then 159 else 191) b
        \<and> continuation c then 3
      else 0)"
| "utf8_width (a # b # c # d # s) =
     (if byte a < 128 then 1 else if between 194 223 a \<and> continuation b then 2
      else if between 224 239 a \<and> between (if byte a = 224 then 160 else 128) (if byte a = 237 then 159 else 191) b
        \<and> continuation c then 3
      else if between 240 244 a \<and> between (if byte a = 240 then 144 else 128) (if byte a = 244 then 143 else 191) b
        \<and> continuation c \<and> continuation d then 4
      else 0)"

text \<open>The replacement character, U+FFFD.\<close>

definition replacement :: string where
  "replacement = map char_of [239, 191, 189 :: nat]"

function utf8_coerce :: "string \<Rightarrow> string" where
  "utf8_coerce [] = []"
| "utf8_coerce (c # s) =
     (let n = utf8_width (c # s) in
      if n = 0 then replacement @ utf8_coerce s
      else c # take (n - 1) s @ utf8_coerce (drop (n - 1) s))"
  by pat_completeness auto
termination by (relation "measure length") auto

definition utf8_valid :: "string \<Rightarrow> bool" where
  "utf8_valid s = (utf8_coerce s = s)"

text \<open>The encoding of a character given by its number.\<close>

definition encode_rune :: "int \<Rightarrow> string" where
  "encode_rune r =
     map (\<lambda>i. char_of (nat i))
       (if r < 128 then [r]
        else if r < 2048 then [192 + r div 64, 128 + r mod 64]
        else if r < 65536 then [224 + r div 4096, 128 + r div 64 mod 64, 128 + r mod 64]
        else [240 + r div 262144, 128 + r div 4096 mod 64, 128 + r div 64 mod 64, 128 + r mod 64])"

lemma ascii_width [simp]: "byte a < 128 \<Longrightarrow> utf8_width (a # s) = 1"
  by (cases "a # s" rule: utf8_width.cases) auto

lemma utf8_width_cases:
  "utf8_width (a # s) \<in> {0, 1, 2, 3, 4} \<and> utf8_width (a # s) \<le> length (a # s)
    \<and> (utf8_width (a # s) = 1 \<longleftrightarrow> byte a < 128)"
  by (cases "a # s" rule: utf8_width.cases) auto

text \<open>The bytes behind a character do not matter, and those inside it are above 127.\<close>

lemma utf8_width_take:
  assumes "utf8_width (a # s) = Suc n"
  shows "utf8_width (a # take n s @ t) = Suc n"
  using assms
  by (cases "a # s" rule: utf8_width.cases; cases t rule: utf8_width.cases)
     (auto split: if_splits)

lemma utf8_tail_high:
  assumes "utf8_width (a # s) = Suc n" and "c \<in> set (take n s)"
  shows "128 \<le> byte c"
  using assms by (cases "a # s" rule: utf8_width.cases) (auto simp: between_def split: if_splits)

lemma utf8_coerce_ascii: "ascii_string s \<Longrightarrow> utf8_coerce s = s"
  by (induction s) (auto simp: ascii_string_def)

lemma ascii_valid: "ascii_string s \<Longrightarrow> utf8_valid s"
  by (simp add: utf8_valid_def utf8_coerce_ascii)

subsection \<open>Strings\<close>

definition control_letter :: "char \<Rightarrow> char option" where
  "control_letter c =
     (if c = CHR 0x08 then Some (CHR ''b'') else if c = CHR 0x0C then Some (CHR ''f'')
      else if c = CHR 0x0A then Some (CHR ''n'') else if c = CHR 0x0D then Some (CHR ''r'')
      else if c = CHR 0x09 then Some (CHR ''t'') else None)"

text \<open>How the encoder writes a byte below 128: as it is, with a backslash, or by its number.\<close>

definition html_safe :: "char \<Rightarrow> bool" where
  "html_safe c = (32 \<le> byte c \<and> byte c < 128 \<and> c \<notin> set [CHR 0x22, CHR 0x5C, CHR ''<'', CHR ''>'', CHR ''&''])"

definition escape_byte :: "char \<Rightarrow> string" where
  "escape_byte c =
     (if c = CHR 0x22 \<or> c = CHR 0x5C then [CHR 0x5C, c]
      else case control_letter c of
        Some l \<Rightarrow> [CHR 0x5C, l]
      | None \<Rightarrow> [CHR 0x5C, CHR ''u'', CHR ''0'', CHR ''0'', hex_digit (byte c div 16), hex_digit (byte c mod 16)])"

function quote_body :: "string \<Rightarrow> string" where
  "quote_body [] = []"
| "quote_body (c # s) =
     (if byte c < 128 then (if html_safe c then [c] else escape_byte c) @ quote_body s
      else
        (let n = utf8_width (c # s) in
         if n = 0 then [CHR 0x5C] @ ''ufffd'' @ quote_body s
         else if map byte (c # take (n - 1) s) = [226, 128, 168] then [CHR 0x5C] @ ''u2028'' @ quote_body (drop (n - 1) s)
         else if map byte (c # take (n - 1) s) = [226, 128, 169] then [CHR 0x5C] @ ''u2029'' @ quote_body (drop (n - 1) s)
         else c # take (n - 1) s @ quote_body (drop (n - 1) s)))"
  by pat_completeness auto
termination by (relation "measure length") auto

definition json_quote :: "string \<Rightarrow> string" where
  "json_quote s = CHR 0x22 # quote_body s @ [CHR 0x22]"

text \<open>What the scanner takes from a stream: a value and what follows, an error, or too few bytes.\<close>

datatype 'a scanned = Scanned 'a string | Malformed | Incomplete

definition simple_escape :: "char \<Rightarrow> char option" where
  "simple_escape e =
     (if e = CHR 0x22 \<or> e = CHR 0x5C \<or> e = CHR ''/'' then Some e
      else if e = CHR ''b'' then Some (CHR 0x08) else if e = CHR ''f'' then Some (CHR 0x0C)
      else if e = CHR ''n'' then Some (CHR 0x0A) else if e = CHR ''r'' then Some (CHR 0x0D)
      else if e = CHR ''t'' then Some (CHR 0x09) else None)"

text \<open>The bytes of a string up to its closing quote.\<close>

fun scan_string :: "string \<Rightarrow> string scanned" where
  "scan_string [] = Incomplete"
| "scan_string (c # s) =
     (if c = CHR 0x22 then Scanned [] s
      else if byte c < 32 then Malformed
      else if c = CHR 0x5C then
        (case s of
           [] \<Rightarrow> Incomplete
         | e # t \<Rightarrow>
             if simple_escape e \<noteq> None then map_scanned (\<lambda>r. c # e # r) (scan_string t)
             else if e = CHR ''u'' then
               (if length t < 4 then (if list_all (\<lambda>x. hex_value x \<noteq> None) t then Incomplete else Malformed)
                else if list_all (\<lambda>x. hex_value x \<noteq> None) (take 4 t) then
                  map_scanned (\<lambda>r. c # e # take 4 t @ r) (scan_string (drop 4 t))
                else Malformed)
             else Malformed)
      else map_scanned ((#) c) (scan_string s))"

text \<open>Four hexadecimal digits after a backslash and the letter u.\<close>

fun escaped_unit :: "string \<Rightarrow> int option" where
  "escaped_unit (s # u # a # b # c # d # r) =
     (if s = CHR 0x5C \<and> u = CHR ''u'' then
        (case (hex_value a, hex_value b, hex_value c, hex_value d) of
           (Some w, Some x, Some y, Some z) \<Rightarrow> Some (int w * 4096 + int x * 256 + int y * 16 + int z)
         | _ \<Rightarrow> None)
      else None)"
| "escaped_unit _ = None"

definition surrogate :: "int \<Rightarrow> bool" where
  "surrogate r = (55296 \<le> r \<and> r < 57344)"

text \<open>The character of a surrogate pair: a high one, then a low one.\<close>

definition surrogate_pair :: "int \<Rightarrow> int option \<Rightarrow> int option" where
  "surrogate_pair high low =
     (case low of
        None \<Rightarrow> None
      | Some l \<Rightarrow>
          if 55296 \<le> high \<and> high < 56320 \<and> 56320 \<le> l \<and> l < 57344
          then Some ((high - 55296) * 1024 + (l - 56320) + 65536) else None)"

function unquote :: "string \<Rightarrow> string" where
  "unquote [] = []"
| "unquote (c # s) =
     (if c = CHR 0x5C then
        (case escaped_unit (c # s) of
           Some r \<Rightarrow>
             if surrogate r then
               (case surrogate_pair r (escaped_unit (drop 5 s)) of
                  Some p \<Rightarrow> encode_rune p @ unquote (drop 11 s)
                | None \<Rightarrow> replacement @ unquote (drop 5 s))
             else encode_rune r @ unquote (drop 5 s)
         | None \<Rightarrow>
             (case s of [] \<Rightarrow> [] | e # t \<Rightarrow> (case simple_escape e of None \<Rightarrow> [] | Some x \<Rightarrow> x # unquote t)))
      else
        (let n = utf8_width (c # s) in
         if n = 0 then replacement @ unquote s
         else c # take (n - 1) s @ unquote (drop (n - 1) s)))"
  by pat_completeness auto
termination by (relation "measure length") auto

declare unquote.simps(2) [simp del] quote_body.simps(2) [simp del] utf8_coerce.simps(2) [simp del]

lemma utf8_coerce_ascii_Cons: "byte c < 128 \<Longrightarrow> utf8_coerce (c # s) = c # utf8_coerce s"
  by (simp add: utf8_coerce.simps)

lemma hex_digits_inverse [simp]:
  "hex_value (hex_digit (byte c div 16)) = Some (byte c div 16)"
  "hex_value (hex_digit (byte c mod 16)) = Some (byte c mod 16)"
  by (simp_all add: hex_value_digit nibbles)

lemma unquote_plain: "byte c < 128 \<Longrightarrow> c \<noteq> CHR 0x5C \<Longrightarrow> unquote (c # s) = c # unquote s"
  by (simp add: unquote.simps)

lemma encode_rune_byte: "encode_rune (int (byte c div 16) * 16 + int (byte c mod 16)) = [c]" if "byte c < 128"
proof -
  have "int (byte c div 16) * 16 + int (byte c mod 16) = int (byte c)" 
    using div_mult_mod_eq [of "byte c" 16] by linarith
  then show ?thesis using that by (simp add: encode_rune_def)
qed

lemma unquote_escaped_unit:
  assumes "escaped_unit (CHR 0x5C # CHR ''u'' # a # b # c # d # s) = Some r" and "\<not> surrogate r"
  shows "unquote (CHR 0x5C # CHR ''u'' # a # b # c # d # s) = encode_rune r @ unquote s"
  using assms by (subst unquote.simps) simp

lemma not_a_unit: "e \<noteq> CHR ''u'' \<Longrightarrow> escaped_unit (c # e # s) = None"
  by (cases "c # e # s" rule: escaped_unit.cases) auto

lemma unquote_short: "simple_escape e = Some x \<Longrightarrow> e \<noteq> CHR ''u'' \<Longrightarrow> unquote (CHR 0x5C # e # s) = x # unquote s"
  by (subst unquote.simps) (simp add: not_a_unit)

lemma escape_byte_cases:
  obtains (short) e where "escape_byte c = [CHR 0x5C, e]" "simple_escape e = Some c" "e \<noteq> CHR ''u''"
  | (unit) "escape_byte c = [CHR 0x5C, CHR ''u'', CHR ''0'', CHR ''0'', hex_digit (byte c div 16), hex_digit (byte c mod 16)]"
proof (cases "c = CHR 0x22 \<or> c = CHR 0x5C \<or> control_letter c \<noteq> None")
  case True
  then show ?thesis using short
    by (elim disjE) (auto simp: escape_byte_def control_letter_def simple_escape_def split: if_splits)
next
  case False
  then show ?thesis using unit by (simp add: escape_byte_def)
qed

lemma hex_zero [simp]: "hex_value (CHR ''0'') = Some 0"
  by (simp add: hex_value_def)

lemma unquote_escape:
  assumes "byte c < 128"
  shows "unquote (escape_byte c @ s) = c # unquote s"
proof (cases c rule: escape_byte_cases)
  case (short e)
  then show ?thesis using unquote_short by simp
next
  case unit
  then show ?thesis
    using unquote_escaped_unit [of "CHR ''0''" "CHR ''0''" _ _ _ "int (byte c div 16) * 16 + int (byte c mod 16)"]
      encode_rune_byte [OF assms] assms by (simp add: surrogate_def)
qed

lemma unquote_replacement: "unquote (CHR 0x5C # ''ufffd'' @ s) = replacement @ unquote s"
  using unquote_escaped_unit [of "CHR ''f''" "CHR ''f''" "CHR ''f''" "CHR ''d''" s 65533]
  by (simp add: hex_value_def surrogate_def encode_rune_def replacement_def)

lemma unquote_separators:
  "unquote (CHR 0x5C # ''u2028'' @ s) = map char_of [226, 128, 168 :: nat] @ unquote s"
  "unquote (CHR 0x5C # ''u2029'' @ s) = map char_of [226, 128, 169 :: nat] @ unquote s"
  using unquote_escaped_unit [of "CHR ''2''" "CHR ''0''" "CHR ''2''" "CHR ''8''" s 8232]
    unquote_escaped_unit [of "CHR ''2''" "CHR ''0''" "CHR ''2''" "CHR ''9''" s 8233]
  by (simp_all add: hex_value_def surrogate_def encode_rune_def)

lemma unquote_wide:
  assumes "\<not> byte c < 128" and "utf8_width (c # s) = Suc n"
  shows "unquote (c # take n s @ t) = c # take n s @ unquote t"
proof -
  have "n \<le> length s" using utf8_width_cases [of c s] assms(2) by simp
  then show ?thesis using assms utf8_width_take [OF assms(2), of t] by (auto simp: unquote.simps)
qed

lemma map_byte_eq: "map byte s = ns \<Longrightarrow> s = map char_of ns"
  by (auto simp: map_idI)

text \<open>What is quoted reads back, with invalid bytes replaced.\<close>

lemma unquote_quote: "unquote (quote_body s) = utf8_coerce s"
proof (induction s rule: quote_body.induct)
  case (2 c s)
  let ?n = "utf8_width (c # s)"
  show ?case
  proof (cases "byte c < 128")
    case True
    show ?thesis
    proof (cases "html_safe c")
      case safe: True
      then have "c \<noteq> CHR 0x5C" by (auto simp: html_safe_def)
      then show ?thesis using True safe "2.IH"(1)
        by (simp add: quote_body.simps unquote_plain utf8_coerce_ascii_Cons)
    next
      case False
      then show ?thesis using True "2.IH"(1)
        by (simp add: quote_body.simps unquote_escape utf8_coerce_ascii_Cons)
    qed
  next
    case False
    show ?thesis
    proof (cases ?n)
      case 0
      then show ?thesis using False "2.IH"(2) unquote_replacement
        by (simp add: quote_body.simps utf8_coerce.simps)
    next
      case (Suc n)
      then have ih: "unquote (quote_body (drop n s)) = utf8_coerce (drop n s)"
        using "2.IH"(3,4,5) [OF False refl] by (cases "map byte (c # take n s) = [226, 128, 168]";
            cases "map byte (c # take n s) = [226, 128, 169]") auto
      have coerce: "utf8_coerce (c # s) = c # take n s @ utf8_coerce (drop n s)"
        using Suc by (simp add: utf8_coerce.simps)
      show ?thesis unfolding coerce
        using False Suc ih unquote_separators unquote_wide [OF False Suc, of "quote_body (drop n s)"]
          map_byte_eq [of "c # take n s" "[226, 128, 168]"] map_byte_eq [of "c # take n s" "[226, 128, 169]"]
        by (simp add: quote_body.simps)
    qed
  qed
qed simp

lemma map_scanned_map: "map_scanned f (map_scanned g x) = map_scanned (\<lambda>a. f (g a)) x"
  by (cases x) simp_all

lemma scan_high: "(\<forall>c \<in> set u. 128 \<le> byte c) \<Longrightarrow> scan_string (u @ s) = map_scanned ((@) u) (scan_string s)"
proof (induction u)
  case Nil
  then show ?case by (cases "scan_string s") simp_all
next
  case (Cons c u)
  then have "c \<noteq> CHR 0x22" "c \<noteq> CHR 0x5C" "\<not> byte c < 32" by auto
  then show ?case using Cons by (simp add: map_scanned_map)
qed

lemma hex_digit_value [simp]: "n < 16 \<Longrightarrow> hex_value (hex_digit n) \<noteq> None"
  by (simp add: hex_value_digit)

lemma scan_unit:
  assumes "list_all (\<lambda>x. hex_value x \<noteq> None) [a, b, c, d]"
  shows "scan_string (CHR 0x5C # CHR ''u'' # a # b # c # d # s)
    = map_scanned ((@) [CHR 0x5C, CHR ''u'', a, b, c, d]) (scan_string s)"
  using assms by (subst scan_string.simps(2), cases "scan_string s") (simp_all add: simple_escape_def)

lemma scan_escape: "scan_string (escape_byte c @ s) = map_scanned ((@) (escape_byte c)) (scan_string s)"
proof (cases c rule: escape_byte_cases)
  case (short e)
  then show ?thesis by (simp, cases "scan_string s") simp_all
next
  case unit
  then show ?thesis using scan_unit [of "CHR ''0''" "CHR ''0''"] by simp
qed

lemma map_scanned_eq: "map_scanned f x = Scanned b t \<longleftrightarrow> (\<exists>a. x = Scanned a t \<and> b = f a)"
  by (cases x) auto

declare scan_string.simps(2) [simp del]

lemma scan_separator:
  assumes "u \<in> {''ufffd'', ''u2028'', ''u2029''}"
  shows "scan_string (CHR 0x5C # u @ s) = map_scanned ((@) (CHR 0x5C # u)) (scan_string s)"
  using assms scan_unit [of "CHR ''f''" "CHR ''f''" "CHR ''f''" "CHR ''d''"]
    scan_unit [of "CHR ''2''" "CHR ''0''" "CHR ''2''" "CHR ''8''"]
    scan_unit [of "CHR ''2''" "CHR ''0''" "CHR ''2''" "CHR ''9''"]
  by (auto simp: hex_value_def)

lemma scan_safe: "html_safe c \<Longrightarrow> scan_string (c # s) = map_scanned ((#) c) (scan_string s)"
  by (subst scan_string.simps(2)) (auto simp: html_safe_def)

lemma quote_wide:
  assumes "\<not> byte c < 128" and "utf8_width (c # s) = Suc n"
  shows "quote_body (c # s) \<in> {CHR 0x5C # ''u2028'' @ quote_body (drop n s),
    CHR 0x5C # ''u2029'' @ quote_body (drop n s), (c # take n s) @ quote_body (drop n s)}"
  using assms by (simp add: quote_body.simps)

lemma scan_quote: "scan_string (quote_body s @ CHR 0x22 # t) = Scanned (quote_body s) t"
proof (induction s rule: quote_body.induct)
  case 1
  show ?case by (simp add: scan_string.simps)
next
  case (2 c s)
  show ?case
  proof (cases "byte c < 128")
    case True
    then show ?thesis using "2.IH"(1) by (simp add: quote_body.simps scan_escape scan_safe)
  next
    case False
    show ?thesis
    proof (cases "utf8_width (c # s)")
      case 0
      have "quote_body (c # s) = CHR 0x5C # ''ufffd'' @ quote_body s"
        using False 0 by (simp add: quote_body.simps)
      then show ?thesis using scan_separator [of "''ufffd''" "quote_body s @ CHR 0x22 # t"] "2.IH"(2) [OF False refl 0] by simp
    next
      case (Suc n)
      have ih: "scan_string (quote_body (drop n s) @ CHR 0x22 # t) = Scanned (quote_body (drop n s)) t"
        using Suc "2.IH"(3,4,5) [OF False refl] by (cases "map byte (c # take n s) = [226, 128, 168]";
            cases "map byte (c # take n s) = [226, 128, 169]") auto
      have "\<forall>x \<in> set (c # take n s). 128 \<le> byte x" using False utf8_tail_high [OF Suc] by auto
      note high = scan_high [OF this, of "quote_body (drop n s) @ CHR 0x22 # t"]
      consider "quote_body (c # s) = CHR 0x5C # ''u2028'' @ quote_body (drop n s)"
        | "quote_body (c # s) = CHR 0x5C # ''u2029'' @ quote_body (drop n s)"
        | "quote_body (c # s) = (c # take n s) @ quote_body (drop n s)"
        using quote_wide [OF False Suc] by blast
      then show ?thesis
      proof cases
        case 1
        then show ?thesis using scan_separator [of "''u2028''" "quote_body (drop n s) @ CHR 0x22 # t"] ih by simp
      next
        case 2
        then show ?thesis using scan_separator [of "''u2029''" "quote_body (drop n s) @ CHR 0x22 # t"] ih by simp
      next
        case 3
        then show ?thesis using high ih by simp
      qed
    qed
  qed
qed

lemma scan_string_shorter: "scan_string s = Scanned a t \<Longrightarrow> length t < length s"
proof (induction s arbitrary: a rule: scan_string.induct)
  case (2 c s)
  from "2.prems" consider "t = s" | e u b where "s = e # u" "scan_string u = Scanned b t" "simple_escape e \<noteq> None" "c = CHR 0x5C"
    "c \<noteq> CHR 0x22" "\<not> byte c < 32"
    | u b where "s = CHR ''u'' # u" "scan_string (drop 4 u) = Scanned b t" "\<not> length u < 4" "c = CHR 0x5C"
       "list_all (\<lambda>x. hex_value x \<noteq> None) (take 4 u)" "simple_escape (CHR ''u'') = None" "c \<noteq> CHR 0x22" "\<not> byte c < 32"
    | b where "scan_string s = Scanned b t" "c \<noteq> CHR 0x5C" "c \<noteq> CHR 0x22" "\<not> byte c < 32"
    by (auto simp: scan_string.simps(2) [of c] map_scanned_eq split: if_splits list.splits)
  then show ?case
  proof cases
    case 2
    show ?thesis using "2.IH"(1) [OF _ _ 2(4) 2(1) 2(3,2)] 2 by simp
  next
    case 3
    show ?thesis using "2.IH"(2) [OF _ _ 3(4) 3(1) _ refl 3(3) _ 3(2)] 3 by simp
  next
    case 4
    show ?thesis using "2.IH"(3) [OF 4(3,4,2,1)] by simp
  qed simp
qed simp

end
