(* ===== verification/Go_Json_Text.thy ===== *)
theory Go_Json_Text
  imports Go_Json_String
begin

section \<open>JSON text: the scanner and the encoder of encoding/json\<close>

text \<open>
  The byte level of encoding/json: what a Decoder reads from a stream, and what an Encoder
  writes. The scanner is the library's pushdown automaton: an expectation, a stack of open
  containers, and the bytes that are left. It stops after one value, so a stream can hold
  more than one.
\<close>

subsection \<open>Numbers and words\<close>

definition digit :: "char \<Rightarrow> bool" where
  "digit c = between 48 57 c"

text \<open>At least one digit, and all that follow.\<close>

definition scan_digits :: "string \<Rightarrow> string scanned" where
  "scan_digits s =
     (case s of [] \<Rightarrow> Incomplete
      | c # _ \<Rightarrow> if digit c then Scanned (takeWhile digit s) (dropWhile digit s) else Malformed)"

definition starts :: "char \<Rightarrow> string \<Rightarrow> bool" where
  "starts c s = (s \<noteq> [] \<and> hd s = c)"

text \<open>The whole part of a number is a zero alone or starts with another digit.\<close>

definition scan_whole :: "string \<Rightarrow> string scanned" where
  "scan_whole s = (if starts (CHR ''0'') s then Scanned ''0'' (tl s) else scan_digits s)"

definition scan_signed :: "string \<Rightarrow> string scanned" where
  "scan_signed s = (if starts (CHR ''-'') s then map_scanned ((#) (CHR ''-'')) (scan_whole (tl s)) else scan_whole s)"

definition scan_fraction :: "string \<Rightarrow> string scanned" where
  "scan_fraction s = (if starts (CHR ''.'') s then map_scanned ((#) (CHR ''.'')) (scan_digits (tl s)) else Scanned [] s)"

definition scan_exponent :: "string \<Rightarrow> string scanned" where
  "scan_exponent s =
     (if starts (CHR ''e'') s \<or> starts (CHR ''E'') s then
        (if starts (CHR ''+'') (tl s) \<or> starts (CHR ''-'') (tl s)
         then map_scanned ((@) (take 2 s)) (scan_digits (drop 2 s))
         else map_scanned ((@) (take 1 s)) (scan_digits (tl s)))
      else Scanned [] s)"

fun and_then :: "string scanned \<Rightarrow> (string \<Rightarrow> string scanned) \<Rightarrow> string scanned" where
  "and_then (Scanned a s) f = map_scanned ((@) a) (f s)"
| "and_then Malformed f = Malformed"
| "and_then Incomplete f = Incomplete"

definition scan_number :: "string \<Rightarrow> string scanned" where
  "scan_number s = and_then (and_then (scan_signed s) scan_fraction) scan_exponent"

fun scan_word :: "string \<Rightarrow> string \<Rightarrow> unit scanned" where
  "scan_word [] s = Scanned () s"
| "scan_word (w # ws) [] = Incomplete"
| "scan_word (w # ws) (c # s) = (if c = w then scan_word ws s else Malformed)"

lemma and_then_eq:
  "and_then x f = Scanned b u \<longleftrightarrow> (\<exists>a t d. x = Scanned a t \<and> f t = Scanned d u \<and> b = a @ d)"
  by (cases x) (auto simp: map_scanned_eq)

lemma scan_digits_shorter: "scan_digits s = Scanned a t \<Longrightarrow> length t < length s"
  by (cases s) (auto simp: scan_digits_def le_imp_less_Suc length_dropWhile_le split: if_splits)

lemma scan_digits_tl: "scan_digits (drop n s) = Scanned a t \<Longrightarrow> length t \<le> length s"
  using scan_digits_shorter [of "drop n s" a t] by simp

lemma scan_whole_shorter: "scan_whole s = Scanned a t \<Longrightarrow> length t < length s"
  using scan_digits_shorter by (auto simp: scan_whole_def starts_def split: if_splits)

lemma scan_number_shorter: "scan_number s = Scanned a t \<Longrightarrow> length t < length s"
proof -
  assume "scan_number s = Scanned a t"
  then obtain x y u v where 1: "scan_signed s = Scanned x u" "scan_fraction u = Scanned y v"
    and 2: "\<exists>z. scan_exponent v = Scanned z t"
    by (auto simp: scan_number_def and_then_eq)
  have "length u < length s" using 1(1) scan_whole_shorter [of s] scan_whole_shorter [of "tl s"]
    by (cases s) (auto simp: scan_signed_def starts_def map_scanned_eq split: if_splits)
  moreover have "length v \<le> length u" using 1(2) scan_digits_tl [of 1 u]
    by (auto simp: scan_fraction_def map_scanned_eq drop_Suc split: if_splits)
  moreover have "length t \<le> length v" using 2 scan_digits_tl [of 1 v] scan_digits_tl [of 2 v]
    by (auto simp: scan_exponent_def map_scanned_eq drop_Suc split: if_splits)
  ultimately show ?thesis by simp
qed

lemma scan_word_length: "scan_word w s = Scanned () t \<Longrightarrow> s = w @ t"
  by (induction w s rule: scan_word.induct) (auto split: if_splits)

lemma scan_word_append [simp]: "scan_word w (w @ s) = Scanned () s"
  by (induction w) auto

subsection \<open>Values\<close>

definition json_space :: "char \<Rightarrow> bool" where
  "json_space c = (c \<in> set [CHR '' '', CHR 0x09, CHR 0x0A, CHR 0x0D])"

definition skip_space :: "string \<Rightarrow> string" where
  "skip_space = dropWhile json_space"

text \<open>Containers nest at most this deep.\<close>

definition max_depth :: int where
  "max_depth = 10000"

datatype frame = ArrayFrame "json list" | ObjectFrame "(string \<times> json) list" string

datatype expecting =
    AValue
  | ValueOrClose
  | NameOrClose
  | AName "(string \<times> json) list"
  | AColon "(string \<times> json) list" string
  | Complete json

fun weight :: "expecting \<Rightarrow> nat" where
  "weight ValueOrClose = 1"
| "weight NameOrClose = 1"
| "weight _ = 0"

lemma skip_space_shorter: "skip_space s = c # r \<Longrightarrow> length r < length s"
  using length_dropWhile_le [of json_space s] by (simp add: skip_space_def)

function scan_json :: "expecting \<Rightarrow> frame list \<Rightarrow> string \<Rightarrow> json scanned" where
  "scan_json AValue st s =
     (case skip_space s of
        [] \<Rightarrow> Incomplete
      | c # r \<Rightarrow>
          if c = CHR 0x22 then
            (case scan_string r of
               Scanned raw t \<Rightarrow> scan_json (Complete (JStr (unquote raw))) st t
             | Malformed \<Rightarrow> Malformed | Incomplete \<Rightarrow> Incomplete)
          else if c = CHR ''['' then (if max_depth \<le> int (length st) then Malformed else scan_json ValueOrClose st r)
          else if c = CHR ''{'' then (if max_depth \<le> int (length st) then Malformed else scan_json NameOrClose st r)
          else if c = CHR ''-'' \<or> digit c then
            (case scan_number (c # r) of
               Scanned n t \<Rightarrow> scan_json (Complete (JNum n)) st t
             | Malformed \<Rightarrow> Malformed | Incomplete \<Rightarrow> Incomplete)
          else if c = CHR ''t'' then
            (case scan_word ''rue'' r of
               Scanned _ t \<Rightarrow> scan_json (Complete (JBool True)) st t
             | Malformed \<Rightarrow> Malformed | Incomplete \<Rightarrow> Incomplete)
          else if c = CHR ''f'' then
            (case scan_word ''alse'' r of
               Scanned _ t \<Rightarrow> scan_json (Complete (JBool False)) st t
             | Malformed \<Rightarrow> Malformed | Incomplete \<Rightarrow> Incomplete)
          else if c = CHR ''n'' then
            (case scan_word ''ull'' r of
               Scanned _ t \<Rightarrow> scan_json (Complete JNull) st t
             | Malformed \<Rightarrow> Malformed | Incomplete \<Rightarrow> Incomplete)
          else Malformed)"
| "scan_json ValueOrClose st s =
     (case skip_space s of
        [] \<Rightarrow> Incomplete
      | c # r \<Rightarrow>
          if c = CHR '']'' then scan_json (Complete (JArr [])) st r
          else scan_json AValue (ArrayFrame [] # st) (c # r))"
| "scan_json NameOrClose st s =
     (case skip_space s of
        [] \<Rightarrow> Incomplete
      | c # r \<Rightarrow>
          if c = CHR ''}'' then scan_json (Complete (JObj [])) st r else scan_json (AName []) st (c # r))"
| "scan_json (AName ms) st s =
     (case skip_space s of
        [] \<Rightarrow> Incomplete
      | c # r \<Rightarrow>
          if c = CHR 0x22 then
            (case scan_string r of
               Scanned raw t \<Rightarrow> scan_json (AColon ms (unquote raw)) st t
             | Malformed \<Rightarrow> Malformed | Incomplete \<Rightarrow> Incomplete)
          else Malformed)"
| "scan_json (AColon ms name) st s =
     (case skip_space s of
        [] \<Rightarrow> Incomplete
      | c # r \<Rightarrow> if c = CHR '':'' then scan_json AValue (ObjectFrame ms name # st) r else Malformed)"
| "scan_json (Complete j) st s =
     (case st of
        [] \<Rightarrow> Scanned j s
      | ArrayFrame js # st' \<Rightarrow>
          (case skip_space s of
             [] \<Rightarrow> Incomplete
           | c # r \<Rightarrow>
               if c = CHR '','' then scan_json AValue (ArrayFrame (js @ [j]) # st') r
               else if c = CHR '']'' then scan_json (Complete (JArr (js @ [j]))) st' r
               else Malformed)
      | ObjectFrame ms name # st' \<Rightarrow>
          (case skip_space s of
             [] \<Rightarrow> Incomplete
           | c # r \<Rightarrow>
               if c = CHR '','' then scan_json (AName (ms @ [(name, j)])) st' r
               else if c = CHR ''}'' then scan_json (Complete (JObj (ms @ [(name, j)]))) st' r
               else Malformed))"
  by pat_completeness auto
termination
proof (relation "measures [\<lambda>(e, st, s). length s, \<lambda>(e, st, s). weight e]", goal_cases)
  case 1
  show ?case by simp
qed (auto dest!: skip_space_shorter scan_string_shorter scan_number_shorter scan_word_length)

fun json_text :: "json \<Rightarrow> string" where
  "json_text JNull = ''null''"
| "json_text (JBool b) = (if b then ''true'' else ''false'')"
| "json_text (JNum t) = t"
| "json_text (JStr s) = json_quote s"
| "json_text (JArr js) = ''['' @ join_with (CHR '','') (map json_text js) @ '']''"
| "json_text (JObj ms) = ''{'' @ join_with (CHR '','') (map (\<lambda>(k, j). json_quote k @ CHR '':'' # json_text j) ms) @ ''}''"

text \<open>The value a reader of the text gets: the same, with the invalid bytes of strings replaced.\<close>

fun json_utf8 :: "json \<Rightarrow> json" where
  "json_utf8 (JStr s) = JStr (utf8_coerce s)"
| "json_utf8 (JArr js) = JArr (map json_utf8 js)"
| "json_utf8 (JObj ms) = JObj (map (\<lambda>(k, j). (utf8_coerce k, json_utf8 j)) ms)"
| "json_utf8 j = j"

definition number_text :: "string \<Rightarrow> bool" where
  "number_text t = (scan_number t = Scanned t [])"

text \<open>Values whose numbers are numbers and that nest at most \<open>n\<close> deep.\<close>

fun writable :: "int \<Rightarrow> json \<Rightarrow> bool" where
  "writable n (JNum t) = number_text t"
| "writable n (JArr js) = (0 < n \<and> list_all (writable (n - 1)) js)"
| "writable n (JObj ms) = (0 < n \<and> list_all (\<lambda>m. writable (n - 1) (snd m)) ms)"
| "writable n _ = True"

declare scan_json.simps [simp del]

subsection \<open>What is written reads back\<close>

text \<open>The next byte, if there is one, cannot go on a number.\<close>

definition delimited :: "string \<Rightarrow> bool" where
  "delimited s = (s = [] \<or> \<not> digit (hd s) \<and> hd s \<notin> set ''.eE'')"

lemma digits_more:
  assumes "delimited s"
  shows "takeWhile digit (t @ s) = takeWhile digit t" "dropWhile digit (t @ s) = dropWhile digit t @ s"
proof -
  have "takeWhile digit s = []" "dropWhile digit s = s" using assms by (cases s; simp add: delimited_def)+
  then show "takeWhile digit (t @ s) = takeWhile digit t" "dropWhile digit (t @ s) = dropWhile digit t @ s"
    by (induction t) auto
qed

lemma scan_digits_Nil [simp]: "scan_digits [] = Incomplete"
  by (simp add: scan_digits_def)

lemma scan_digits_more:
  "scan_digits t = Scanned a u \<Longrightarrow> delimited s \<Longrightarrow> scan_digits (t @ s) = Scanned a (u @ s)"
  using digits_more [of s t] by (cases t) (auto simp: scan_digits_def split: if_splits)

lemma starts_simps [simp]: "\<not> starts c []" "starts c (x # s) = (x = c)"
  by (auto simp: starts_def)

lemma starts_append: "t \<noteq> [] \<Longrightarrow> starts c (t @ s) = starts c t"
  by (cases t) simp_all

lemma scan_whole_more:
  "scan_whole t = Scanned a u \<Longrightarrow> delimited s \<Longrightarrow> scan_whole (t @ s) = Scanned a (u @ s)"
  using scan_digits_more [of t a u s] by (cases t) (auto simp: scan_whole_def split: if_splits)

lemma scan_signed_more:
  assumes "scan_signed t = Scanned a u" and "delimited s"
  shows "scan_signed (t @ s) = Scanned a (u @ s)"
proof (cases t)
  case Nil
  then show ?thesis using assms(1) by (simp add: scan_signed_def scan_whole_def)
next
  case (Cons c r)
  then show ?thesis using assms scan_whole_more [of r _ u s] scan_whole_more [of t a u s]
    by (auto simp: scan_signed_def map_scanned_eq split: if_splits)
qed

lemma scan_fraction_more:
  assumes "scan_fraction t = Scanned a u" and "delimited s"
  shows "scan_fraction (t @ s) = Scanned a (u @ s)"
proof (cases t)
  case Nil
  then show ?thesis using assms by (cases s) (auto simp: scan_fraction_def delimited_def)
next
  case (Cons c r)
  then show ?thesis using assms scan_digits_more [of r _ u s]
    by (auto simp: scan_fraction_def map_scanned_eq split: if_splits)
qed

lemma scan_exponent_more:
  assumes "scan_exponent t = Scanned a u" and "delimited s"
  shows "scan_exponent (t @ s) = Scanned a (u @ s)"
proof (cases t)
  case Nil
  then show ?thesis using assms by (cases s) (auto simp: scan_exponent_def delimited_def)
next
  case (Cons e r)
  show ?thesis
  proof (cases r)
    case Nil
    then show ?thesis using assms Cons by (auto simp: scan_exponent_def map_scanned_eq split: if_splits)
  next
    case (Cons x v)
    then show ?thesis using assms \<open>t = e # r\<close> scan_digits_more [of v _ u s] scan_digits_more [of r _ u s]
      by (auto simp: scan_exponent_def map_scanned_eq split: if_splits)
  qed
qed

lemma number_more:
  assumes "number_text t" and "delimited s"
  shows "scan_number (t @ s) = Scanned t s"
proof -
  obtain a t1 b t2 c where t: "scan_signed t = Scanned a t1" "scan_fraction t1 = Scanned b t2"
    "scan_exponent t2 = Scanned c []" "t = (a @ b) @ c"
    using assms(1) by (auto simp: number_text_def scan_number_def and_then_eq)
  have "scan_number (t @ s) = Scanned ((a @ b) @ c) s"
    unfolding scan_number_def using scan_signed_more [OF t(1) assms(2)] scan_fraction_more [OF t(2) assms(2)]
      scan_exponent_more [OF t(3) assms(2)] by simp
  then show ?thesis using t(4) by simp
qed

lemma number_start: "number_text t \<Longrightarrow> \<exists>c r. t = c # r \<and> (c = CHR ''-'' \<or> digit c)"
  by (cases t) (auto simp: number_text_def scan_number_def and_then_eq scan_signed_def scan_whole_def scan_digits_def
      starts_def digit_def between_def split: if_splits)

definition value_start :: "char \<Rightarrow> bool" where
  "value_start c = (c \<in> set ([CHR 0x22] @ ''[{-tfn'') \<or> digit c)"

lemma value_start_plain: "value_start c \<Longrightarrow> \<not> json_space c \<and> c \<noteq> CHR '']'' \<and> c \<noteq> CHR ''}''"
  by (auto simp: value_start_def json_space_def digit_def between_def)

lemma json_text_start: "writable n j \<Longrightarrow> \<exists>c r. json_text j = c # r \<and> value_start c"
  by (cases j) (auto simp: json_quote_def value_start_def dest: number_start)

lemma skip_nothing: "\<not> json_space c \<Longrightarrow> skip_space (c # s) = c # s"
  by (simp add: skip_space_def)

lemma json_space_simps [simp]:
  "\<not> json_space (CHR 0x22)" "\<not> json_space (CHR '','')" "\<not> json_space (CHR '']'')" "\<not> json_space (CHR ''}'')"
  "\<not> json_space (CHR '':'')" "\<not> json_space (CHR ''['')" "\<not> json_space (CHR ''{'')"
  by (simp_all add: json_space_def)

lemma delimited_simps [simp]:
  "delimited []" "delimited (CHR '','' # s)" "delimited (CHR '']'' # s)" "delimited (CHR ''}'' # s)" "delimited (CHR 0x0A # s)"
  by (simp_all add: delimited_def digit_def between_def)

lemma scan_quoted:
  "scan_string (quote_body s @ CHR 0x22 # t) = Scanned (quote_body s) t" "unquote (quote_body s) = utf8_coerce s"
  by (rule scan_quote, rule unquote_quote)

lemma scan_json_string: "scan_json AValue st (json_quote s @ t) = scan_json (Complete (JStr (utf8_coerce s))) st t"
  by (simp add: json_quote_def scan_json.simps(1) [of st "CHR 0x22 # _"] skip_nothing scan_quoted)

lemma scan_json_name: "scan_json (AName ms) st (json_quote s @ t) = scan_json (AColon ms (utf8_coerce s)) st t"
  by (simp add: json_quote_def scan_json.simps(4) [of ms st "CHR 0x22 # _"] skip_nothing scan_quoted)

lemma scan_json_colon: "scan_json (AColon ms k) st (CHR '':'' # t) = scan_json AValue (ObjectFrame ms k # st) t"
  by (simp add: scan_json.simps(5) skip_nothing)

lemma scan_json_in_array:
  "scan_json (Complete j) (ArrayFrame js # st) (CHR '','' # t) = scan_json AValue (ArrayFrame (js @ [j]) # st) t"
  "scan_json (Complete j) (ArrayFrame js # st) (CHR '']'' # t) = scan_json (Complete (JArr (js @ [j]))) st t"
  by (simp_all add: scan_json.simps(6) [of j "ArrayFrame js # st"] skip_nothing)

lemma scan_json_in_object:
  "scan_json (Complete j) (ObjectFrame ms k # st) (CHR '','' # t) = scan_json (AName (ms @ [(k, j)])) st t"
  "scan_json (Complete j) (ObjectFrame ms k # st) (CHR ''}'' # t) = scan_json (Complete (JObj (ms @ [(k, j)]))) st t"
  by (simp_all add: scan_json.simps(6) [of j "ObjectFrame ms k # st"] skip_nothing)

lemmas scan_json_steps = scan_json_string scan_json_name scan_json_colon scan_json_in_array scan_json_in_object

lemma scan_json_open:
  assumes "int (length st) < max_depth"
  shows "scan_json AValue st (CHR ''['' # t) = scan_json ValueOrClose st t"
    and "scan_json AValue st (CHR ''{'' # t) = scan_json NameOrClose st t"
  using assms by (simp_all add: scan_json.simps(1) [of st "_ # t"] skip_nothing)

lemma scan_json_close:
  "scan_json ValueOrClose st (CHR '']'' # t) = scan_json (Complete (JArr [])) st t"
  "scan_json NameOrClose st (CHR ''}'' # t) = scan_json (Complete (JObj [])) st t"
  "value_start c \<Longrightarrow> scan_json ValueOrClose st (c # t) = scan_json AValue (ArrayFrame [] # st) (c # t)"
  "scan_json NameOrClose st (CHR 0x22 # t) = scan_json (AName []) st (CHR 0x22 # t)"
  using value_start_plain [of c]
  by (simp_all add: scan_json.simps(2) [of st "_ # t"] scan_json.simps(3) [of st "_ # t"] skip_nothing)

lemma scan_json_number:
  assumes "number_text n" and "delimited t"
  shows "scan_json AValue st (n @ t) = scan_json (Complete (JNum n)) st t"
proof -
  obtain c r where c: "n = c # r" "c = CHR ''-'' \<or> digit c" using number_start [OF assms(1)] by blast
  then have "\<not> json_space c" "c \<noteq> CHR 0x22" "c \<noteq> CHR ''[''" "c \<noteq> CHR ''{''"
    by (auto simp: json_space_def digit_def between_def)
  then show ?thesis
    using c number_more [OF assms] by (simp add: scan_json.simps(1) [of st "c # _"] skip_nothing)
qed

lemma not_digits [simp]: "\<not> digit (CHR ''t'')" "\<not> digit (CHR ''f'')" "\<not> digit (CHR ''n'')"
  by (simp_all add: digit_def between_def)

lemma scan_json_word:
  "scan_json AValue st (''true'' @ t) = scan_json (Complete (JBool True)) st t"
  "scan_json AValue st (''false'' @ t) = scan_json (Complete (JBool False)) st t"
  "scan_json AValue st (''null'' @ t) = scan_json (Complete JNull) st t"
  using scan_word_append [of "''rue''" t] scan_word_append [of "''alse''" t] scan_word_append [of "''ull''" t]
  by (simp_all add: scan_json.simps(1) [of st "_ # _"] skip_nothing json_space_def)

lemma scan_elements:
  assumes "\<And>x d u. x \<in> set (y # ys) \<Longrightarrow> delimited u \<Longrightarrow>
      scan_json AValue (ArrayFrame d # st) (json_text x @ u) = scan_json (Complete (json_utf8 x)) (ArrayFrame d # st) u"
  shows "scan_json AValue (ArrayFrame js # st) (join_with (CHR '','') (map json_text (y # ys)) @ CHR '']'' # t)
    = scan_json (Complete (JArr (js @ map json_utf8 (y # ys)))) st t"
  using assms
proof (induction ys arbitrary: y js)
  case Nil
  then show ?case by (simp add: scan_json_in_array)
next
  case (Cons z zs)
  have "scan_json AValue (ArrayFrame (js @ [json_utf8 y]) # st) (join_with (CHR '','') (map json_text (z # zs)) @ CHR '']'' # t)
      = scan_json (Complete (JArr ((js @ [json_utf8 y]) @ map json_utf8 (z # zs)))) st t"
    by (rule Cons.IH) (use Cons.prems in auto)
  then show ?case using Cons.prems [of y] by (simp add: scan_json_in_array)
qed

abbreviation member_text :: "string \<times> json \<Rightarrow> string" where
  "member_text \<equiv> \<lambda>(k, j). json_quote k @ CHR '':'' # json_text j"

abbreviation member_utf8 :: "string \<times> json \<Rightarrow> string \<times> json" where
  "member_utf8 \<equiv> \<lambda>(k, j). (utf8_coerce k, json_utf8 j)"

lemma scan_members:
  assumes "\<And>m f u. m \<in> set (n # ns) \<Longrightarrow> delimited u \<Longrightarrow>
      scan_json AValue (f # st) (json_text (snd m) @ u) = scan_json (Complete (json_utf8 (snd m))) (f # st) u"
  shows "scan_json (AName ms) st (join_with (CHR '','') (map member_text (n # ns)) @ CHR ''}'' # t)
    = scan_json (Complete (JObj (ms @ map member_utf8 (n # ns)))) st t"
  using assms
proof (induction ns arbitrary: n ms)
  case Nil
  from Nil [of n] show ?case by (cases n) (simp add: scan_json_name scan_json_colon scan_json_in_object)
next
  case (Cons z zs)
  obtain k j where n: "n = (k, j)" by (cases n)
  have "scan_json (AName (ms @ [member_utf8 n])) st (join_with (CHR '','') (map member_text (z # zs)) @ CHR ''}'' # t)
      = scan_json (Complete (JObj ((ms @ [member_utf8 n]) @ map member_utf8 (z # zs)))) st t"
    by (rule Cons.IH) (use Cons.prems in auto)
  then show ?case using Cons.prems [of n] n by (simp add: scan_json_name scan_json_colon scan_json_in_object)
qed

lemma scan_array:
  assumes "int (length st) < max_depth" and "list_all (writable n) js"
    and "\<And>x d u. x \<in> set js \<Longrightarrow> delimited u \<Longrightarrow>
      scan_json AValue (ArrayFrame d # st) (json_text x @ u) = scan_json (Complete (json_utf8 x)) (ArrayFrame d # st) u"
  shows "scan_json AValue st (json_text (JArr js) @ t) = scan_json (Complete (json_utf8 (JArr js))) st t"
proof (cases js)
  case Nil
  then show ?thesis using assms(1) by (simp add: scan_json_open scan_json_close)
next
  case (Cons y ys)
  obtain c r where "json_text y = c # r" "value_start c"
    using assms(2) Cons json_text_start by (auto simp: list_all_iff) blast
  then have "join_with (CHR '','') (map json_text js) = c # tl (join_with (CHR '','') (map json_text js))"
    by (cases ys) (simp_all add: Cons)
  then have "scan_json ValueOrClose st (join_with (CHR '','') (map json_text js) @ CHR '']'' # t)
      = scan_json AValue (ArrayFrame [] # st) (join_with (CHR '','') (map json_text js) @ CHR '']'' # t)"
    using scan_json_close(3) [OF \<open>value_start c\<close>] by (metis append_Cons)
  then show ?thesis
    using assms(1) scan_elements [OF assms(3) [unfolded Cons], where js = "[]" and t = t] Cons by (simp add: scan_json_open)
qed

lemma scan_object:
  assumes "int (length st) < max_depth"
    and "\<And>m f u. m \<in> set ms \<Longrightarrow> delimited u \<Longrightarrow>
      scan_json AValue (f # st) (json_text (snd m) @ u) = scan_json (Complete (json_utf8 (snd m))) (f # st) u"
  shows "scan_json AValue st (json_text (JObj ms) @ t) = scan_json (Complete (json_utf8 (JObj ms))) st t"
proof (cases ms)
  case Nil
  then show ?thesis using assms(1) by (simp add: scan_json_open scan_json_close)
next
  case (Cons n ns)
  have "join_with (CHR '','') (map member_text ms) = CHR 0x22 # tl (join_with (CHR '','') (map member_text ms))"
    by (cases ns; cases n) (simp_all add: Cons json_quote_def)
  then have "scan_json NameOrClose st (join_with (CHR '','') (map member_text ms) @ CHR ''}'' # t)
      = scan_json (AName []) st (join_with (CHR '','') (map member_text ms) @ CHR ''}'' # t)"
    using scan_json_close(4) by (metis append_Cons)
  then show ?thesis
    using assms(1) scan_members [OF assms(2) [unfolded Cons], where ms = "[]" and t = t] Cons by (simp add: scan_json_open)
qed

lemma writable_below:
  "list_all (writable (max_depth - int (length st) - 1)) js \<Longrightarrow> x \<in> set js \<Longrightarrow> writable (max_depth - int (length (f # st))) x"
  by (simp add: list_all_iff algebra_simps)

text \<open>
  The scanner inverts the encoder: wherever a value may stand, the text of a value is read as
  that value, and the rest is left.
\<close>

theorem scan_json_text:
  assumes "writable (max_depth - int (length st)) j" and "delimited t"
  shows "scan_json AValue st (json_text j @ t) = scan_json (Complete (json_utf8 j)) st t"
  using assms
proof (induction j arbitrary: st t)
  case JNull
  then show ?case using scan_json_word by simp
next
  case (JBool b)
  then show ?case using scan_json_word by (cases b) simp_all
next
  case (JNum n)
  then show ?case using scan_json_number by simp
next
  case (JStr s)
  then show ?case using scan_json_string by simp
next
  case (JArr js)
  then have w: "int (length st) < max_depth" "list_all (writable (max_depth - int (length st) - 1)) js" by simp_all
  show ?case by (rule scan_array [OF w]) (rule JArr.IH [OF _ writable_below [OF w(2)]])
next
  case (JObj ms)
  then have w: "int (length st) < max_depth" "list_all (writable (max_depth - int (length st) - 1)) (map snd ms)"
    by (simp_all add: list_all_iff)
  show ?case
  proof (rule scan_object [OF w(1)])
    fix m f u assume m: "m \<in> set ms" "delimited u"
    have "snd m \<in> Basic_BNFs.snds m" by (cases m) simp
    from JObj.IH [OF m(1) this writable_below [OF w(2), of "snd m" f] m(2)] m(1)
    show "scan_json AValue (f # st) (json_text (snd m) @ u) = scan_json (Complete (json_utf8 (snd m))) (f # st) u" by simp
  qed
qed

subsection \<open>Streams and the Decoder\<close>

text \<open>
  A reader, seen as the bytes it delivers and the error it then ends with, which is \<open>EOF\<close> at
  the proper end. The error is delivered after the last byte, again and again.
\<close>

record stream =
  str_bytes :: string
  str_end :: lib_error

definition text_stream :: "string \<Rightarrow> stream" where
  "text_stream s = \<lparr>str_bytes = s, str_end = EOF\<rparr>"

text \<open>http.MaxBytesReader fails behind its limit, io.LimitReader ends there.\<close>

definition MaxBytesReader :: "int \<Rightarrow> stream \<Rightarrow> stream" where
  "MaxBytesReader n s =
     (if int (length (str_bytes s)) \<le> n then s
      else \<lparr>str_bytes = take (nat n) (str_bytes s), str_end = MaxBytesError\<rparr>)"

definition LimitReader :: "int \<Rightarrow> stream \<Rightarrow> stream" where
  "LimitReader n s =
     (if int (length (str_bytes s)) < n then s
      else \<lparr>str_bytes = take (nat n) (str_bytes s), str_end = EOF\<rparr>)"

text \<open>
  One Decode: the value and the stream behind it. A value that is no container is known to be
  complete only by the next byte or the end of the stream.
\<close>

definition container :: "json \<Rightarrow> bool" where
  "container j = (case j of JArr _ \<Rightarrow> True | JObj _ \<Rightarrow> True | _ \<Rightarrow> False)"

definition UnexpectedEOF :: lib_error where
  "UnexpectedEOF = Failed ''io.ErrUnexpectedEOF'' []"

definition decode_next :: "stream \<Rightarrow> lib_error + json \<times> stream" where
  "decode_next s =
     (if skip_space (str_bytes s) = [] then Inl (str_end s)
      else case scan_json AValue [] (str_bytes s) of
        Scanned j t \<Rightarrow>
          if t = [] \<and> str_end s \<noteq> EOF \<and> \<not> container j then Inl (str_end s) else Inr (j, s\<lparr>str_bytes := t\<rparr>)
      | Malformed \<Rightarrow> Inl (Failed ''json.SyntaxError'' (str_bytes s))
      | Incomplete \<Rightarrow> Inl (if str_end s = EOF then UnexpectedEOF else str_end s))"

lemma decode_next_end: "decode_next s = Inl EOF \<longleftrightarrow> skip_space (str_bytes s) = [] \<and> str_end s = EOF"
  by (auto simp: decode_next_def UnexpectedEOF_def split: scanned.splits)

lemma decode_next_value:
  "decode_next s = Inr (j, s') \<longleftrightarrow>
     (\<exists>t. scan_json AValue [] (str_bytes s) = Scanned j t \<and> s' = s\<lparr>str_bytes := t\<rparr>
        \<and> (t = [] \<longrightarrow> str_end s = EOF \<or> container j))"
proof -
  have "skip_space (str_bytes s) = [] \<Longrightarrow> scan_json AValue [] (str_bytes s) = Incomplete"
    by (subst scan_json.simps(1)) simp
  then show ?thesis by (auto simp: decode_next_def split: scanned.splits)
qed

lemma scan_text:
  "writable max_depth j \<Longrightarrow> delimited t \<Longrightarrow> scan_json AValue [] (json_text j @ t) = Scanned (json_utf8 j) t"
  using scan_json_text [of "[]" j t] by (simp add: scan_json.simps(6))

lemma decode_text:
  assumes "writable max_depth j" and "delimited t"
  shows "decode_next (text_stream (json_text j @ t)) = Inr (json_utf8 j, text_stream t)"
  using scan_text [OF assms] unfolding decode_next_value by (simp add: text_stream_def)

lemma MaxBytesReader_EOF:
  "str_end (MaxBytesReader n s) = EOF \<longleftrightarrow> str_end s = EOF \<and> int (length (str_bytes s)) \<le> n"
  by (simp add: MaxBytesReader_def)

text \<open>Integers are numbers.\<close>

lemma digit_char_start: "d < 10 \<Longrightarrow> d \<noteq> 0 \<Longrightarrow> digit_char d \<noteq> CHR ''0''"
  by (drule less_10_cases) (auto simp: digit_char_def)

lemma nat_text_start: "n \<noteq> 0 \<Longrightarrow> hd (nat_text n) \<noteq> CHR ''0''"
proof (induction n rule: nat_text.induct)
  case (1 n)
  then show ?case
    by (cases "n < 10") (auto simp: nat_text.simps [of n] digit_char_start)
qed

lemma digit_digit_char: "d < 10 \<Longrightarrow> digit (digit_char d)"
  by (drule less_10_cases) (auto simp: digit_def between_def digit_char_def)

lemma whole_text: "scan_whole (nat_text n) = Scanned (nat_text n) []"
proof (cases "n = 0")
  case True
  then show ?thesis by (simp add: nat_text.simps scan_whole_def digit_char_def)
next
  case False
  obtain c r where cr: "nat_text n = c # r" by (cases "nat_text n") auto
  have "\<forall>x \<in> set (nat_text n). digit x" using nat_text_digits digit_digit_char by metis
  then have "takeWhile digit (nat_text n) = nat_text n" "dropWhile digit (nat_text n) = []" "digit c"
    using cr by (simp_all add: takeWhile_eq_all_conv)
  moreover have "c \<noteq> CHR ''0''" using nat_text_start [OF False] cr by simp
  ultimately show ?thesis using cr by (simp add: scan_whole_def scan_digits_def)
qed

lemma format_int_number [simp]: "number_text (format_int i)"
proof -
  have "\<not> starts (CHR ''-'') (nat_text n)" for n
    using nat_text_digits [of "CHR ''-''" n] digit_char_props by (cases "nat_text n") (simp, metis list.set_intros(1) starts_simps(2))
  then have "scan_signed (format_int i) = Scanned (format_int i) []"
    using whole_text by (simp add: format_int_def scan_signed_def)
  then show ?thesis by (simp add: number_text_def scan_number_def scan_fraction_def scan_exponent_def)
qed

declare json_text.simps [simp del]

end
