(* ===== verification/Go_Http.thy ===== *)
theory Go_Http
  imports Go_Json_Text
begin

section \<open>HTTP messages as a handler sees them\<close>

text \<open>
  The parts of net/http and encoding/base64 the handlers use. A request gives its header
  values, its path values and its body as a stream. A handler acts on the ResponseWriter by a
  sequence of calls; the response is what the calls leave behind.
\<close>

subsection \<open>Requests\<close>

record http_request =
  req_Method :: string
  req_Path :: string
  req_owner :: string
  req_repository :: string
  req_Header :: "string \<Rightarrow> string"
  req_Body :: stream

subsection \<open>The ResponseWriter\<close>

datatype 'p write_op =
    SetHeader string string
  | WriteHeader int
  | Write 'p

text \<open>
  \<open>sent\<close> is the status line and the headers as they were when the status was written.
  Only the first WriteHeader counts, and a Write before it sends status 200.
\<close>

record 'p response =
  hdr :: "string \<rightharpoonup> string"
  sent :: "(int \<times> (string \<rightharpoonup> string)) option"
  body :: "'p list"

definition empty_response :: "'p response" where
  "empty_response = \<lparr>hdr = Map.empty, sent = None, body = []\<rparr>"

definition write_header :: "int \<Rightarrow> 'p response \<Rightarrow> 'p response" where
  "write_header code w = (case sent w of None \<Rightarrow> w\<lparr>sent := Some (code, hdr w)\<rparr> | Some _ \<Rightarrow> w)"

fun do_write :: "'p response \<Rightarrow> 'p write_op \<Rightarrow> 'p response" where
  "do_write w (SetHeader k v) = w\<lparr>hdr := (hdr w)(k \<mapsto> v)\<rparr>"
| "do_write w (WriteHeader code) = write_header code w"
| "do_write w (Write p) = (let w1 = write_header 200 w in w1\<lparr>body := body w1 @ [p]\<rparr>)"

definition run_writes :: "'p write_op list \<Rightarrow> 'p response \<Rightarrow> 'p response" where
  "run_writes ops w = foldl do_write w ops"

text \<open>When a handler returns without writing, the server sends status 200.\<close>

definition final_status :: "'p response \<Rightarrow> int" where
  "final_status w = (case sent w of None \<Rightarrow> 200 | Some (c, _) \<Rightarrow> c)"

definition sent_header :: "'p response \<Rightarrow> string \<Rightarrow> string option" where
  "sent_header w k = (case sent w of None \<Rightarrow> hdr w k | Some (_, h) \<Rightarrow> h k)"

lemma run_writes_simps [simp]:
  "run_writes [] w = w"
  "run_writes (op # ops) w = run_writes ops (do_write w op)"
  "run_writes (ops @ ops') w = run_writes ops' (run_writes ops w)"
  by (simp_all add: run_writes_def)

lemma write_header_simps [simp]:
  "sent w = None \<Longrightarrow> write_header c w = w\<lparr>sent := Some (c, hdr w)\<rparr>"
  "sent w = Some s \<Longrightarrow> write_header c w = w"
  by (simp_all add: write_header_def)

lemma sent_do_write: "sent w = Some s \<Longrightarrow> sent (do_write w op) = Some s"
  by (cases op) (simp_all add: Let_def)

lemma sent_run_writes: "sent w = Some s \<Longrightarrow> sent (run_writes ops w) = Some s"
  by (induction ops arbitrary: w) (auto simp: sent_do_write)

subsection \<open>Basic credentials\<close>

definition b64_alphabet :: string where
  "b64_alphabet = ''ABCDEFGHIJKLMNOPQRSTUVWXYZabcdefghijklmnopqrstuvwxyz0123456789+/''"

definition b64_value :: "char \<Rightarrow> nat option" where
  "b64_value c =
     (if 65 \<le> byte c \<and> byte c \<le> 90 then Some (byte c - 65)
      else if 97 \<le> byte c \<and> byte c \<le> 122 then Some (byte c - 71)
      else if 48 \<le> byte c \<and> byte c \<le> 57 then Some (byte c + 4)
      else if c = CHR ''+'' then Some 62
      else if c = CHR ''/'' then Some 63
      else None)"

fun b64_quanta :: "string \<Rightarrow> string option" where
  "b64_quanta [] = Some []"
| "b64_quanta (a # b # c # d # s) =
     (case (b64_value a, b64_value b) of
        (Some x, Some y) \<Rightarrow>
          (let o1 = char_of (x * 4 + y div 16) in
           if c = CHR ''='' then (if d = CHR ''='' \<and> s = [] then Some [o1] else None)
           else
             (case b64_value c of
                None \<Rightarrow> None
              | Some z \<Rightarrow>
                  (let o2 = char_of (y mod 16 * 16 + z div 4) in
                   if d = CHR ''='' then (if s = [] then Some [o1, o2] else None)
                   else
                     (case b64_value d of
                        None \<Rightarrow> None
                      | Some u \<Rightarrow>
                          map_option (\<lambda>r. o1 # o2 # char_of (z mod 4 * 64 + u) # r) (b64_quanta s)))))
      | _ \<Rightarrow> None)"
| "b64_quanta _ = None"

text \<open>base64.StdEncoding.DecodeString skips line breaks.\<close>

definition b64_decode :: "string \<Rightarrow> string option" where
  "b64_decode s = b64_quanta (filter (\<lambda>c. byte c \<noteq> 10 \<and> byte c \<noteq> 13) s)"

definition b64_char :: "nat \<Rightarrow> char" where
  "b64_char n = b64_alphabet ! n"

fun b64_encode :: "string \<Rightarrow> string" where
  "b64_encode [] = []"
| "b64_encode [a] = [b64_char (byte a div 4), b64_char (byte a mod 4 * 16), CHR ''='', CHR ''='']"
| "b64_encode [a, b] =
     [b64_char (byte a div 4), b64_char (byte a mod 4 * 16 + byte b div 16),
      b64_char (byte b mod 16 * 4), CHR ''='']"
| "b64_encode (a # b # c # s) =
     b64_char (byte a div 4) # b64_char (byte a mod 4 * 16 + byte b div 16)
     # b64_char (byte b mod 16 * 4 + byte c div 64) # b64_char (byte c mod 64) # b64_encode s"

definition parse_basic_auth :: "string \<Rightarrow> (string \<times> string) option" where
  "parse_basic_auth auth =
     (if length auth < 6 \<or> map lower_char (take 6 auth) \<noteq> ''basic '' then None
      else case b64_decode (drop 6 auth) of
        None \<Rightarrow> None
      | Some cs \<Rightarrow>
          (case dropWhile (\<lambda>c. c \<noteq> CHR '':'') cs of
             [] \<Rightarrow> None
           | _ # password \<Rightarrow> Some (takeWhile (\<lambda>c. c \<noteq> CHR '':'') cs, password)))"

text \<open>The client side: Request.SetBasicAuth.\<close>

definition basic_auth_header :: "string \<Rightarrow> string \<Rightarrow> string" where
  "basic_auth_header user password = ''Basic '' @ b64_encode (user @ '':'' @ password)"

lemma b64_alphabet_values:
  "list_all (\<lambda>n. b64_value (b64_char n) = Some n \<and> b64_char n \<noteq> CHR ''='' \<and>
     byte (b64_char n) \<noteq> 10 \<and> byte (b64_char n) \<noteq> 13) [0..<64]"
  by code_simp

lemma b64_char_props:
  assumes "n < 64"
  shows "b64_value (b64_char n) = Some n" "b64_char n \<noteq> CHR ''=''"
    "byte (b64_char n) \<noteq> 10" "byte (b64_char n) \<noteq> 13"
  using b64_alphabet_values assms by (auto simp: list_all_iff)

lemma byte_parts [bounds]:
  "byte a div 4 < 64" "byte a mod 4 \<le> 3" "byte a div 16 \<le> 15" "byte a mod 16 \<le> 15"
  "byte a div 64 \<le> 3" "byte a mod 64 < 64"
  using byte_less [of a] by (simp_all add: less_mult_imp_div_less less_Suc_eq_le [symmetric])

lemma b64_sextets [bounds]:
  "byte a div 4 < 64" "byte a mod 4 * 16 < 64" "byte a mod 4 * 16 + byte b div 16 < 64"
  "byte b mod 16 * 4 < 64" "byte b mod 16 * 4 + byte c div 64 < 64" "byte c mod 64 < 64"
  using byte_parts [of a] byte_parts [of b] byte_parts [of c] by linarith+

lemma byte_div_simps:
  "byte b div 16 div 16 = 0" "byte b div 16 mod 16 = byte b div 16"
  "byte c div 64 div 4 = 0" "byte c div 64 mod 4 = byte c div 64"
  using byte_parts(3) [of b] byte_parts(5) [of c] by simp_all

lemma b64_quanta_encode: "b64_quanta (b64_encode s) = Some s"
  by (induction s rule: b64_encode.induct)
    (simp_all add: b64_char_props b64_sextets byte_div_simps Let_def)

lemma b64_encode_no_breaks:
  "c \<in> set (b64_encode s) \<Longrightarrow> byte c \<noteq> 10 \<and> byte c \<noteq> 13"
  by (induction s rule: b64_encode.induct) (auto simp: b64_char_props b64_sextets)

lemma b64_decode_encode: "b64_decode (b64_encode s) = Some s"
proof -
  have "filter (\<lambda>c. byte c \<noteq> 10 \<and> byte c \<noteq> 13) (b64_encode s) = b64_encode s"
    using b64_encode_no_breaks by (simp add: filter_id_conv)
  then show ?thesis by (simp add: b64_decode_def b64_quanta_encode)
qed

lemma cut_at_colon:
  "CHR '':'' \<notin> set u \<Longrightarrow> dropWhile (\<lambda>c. c \<noteq> CHR '':'') (u @ '':'' @ p) = CHR '':'' # p"
  "CHR '':'' \<notin> set u \<Longrightarrow> takeWhile (\<lambda>c. c \<noteq> CHR '':'') (u @ '':'' @ p) = u"
  by (induction u) auto

lemma parse_basic_auth_header:
  "CHR '':'' \<notin> set user \<Longrightarrow> parse_basic_auth (basic_auth_header user password) = Some (user, password)"
proof -
  assume u: "CHR '':'' \<notin> set user"
  have "map lower_char ''Basic '' = ''basic ''" by code_simp
  then show ?thesis
    using u cut_at_colon [OF u, of password]
    by (simp add: parse_basic_auth_def basic_auth_header_def b64_decode_encode)
qed

end
