(* ===== verification/Observability.thy ===== *)
theory Observability
  imports Go_Http
begin

section \<open>Package observability: vectors, registration and the instrumented writer\<close>

text \<open>
  \<^verbatim>\<open>internal/observability/metrics.go\<close>. A counter vector maps label values to counts, a
  histogram vector to the durations observed so far, oldest first: what its buckets, count and
  sum are computed from. \<^verbatim>\<open>statusRecorder\<close> wraps a ResponseWriter and remembers the first
  status written through it.
\<close>

type_synonym counter_vec = "string list \<Rightarrow> nat"
type_synonym histogram_vec = "string list \<Rightarrow> duration list"

record Metrics =
  HTTPRequests :: counter_vec
  HTTPDuration :: histogram_vec
  AuthCache :: counter_vec
  GitHubRequests :: counter_vec
  GitHubDuration :: histogram_vec
  S3Requests :: counter_vec
  S3Duration :: histogram_vec
  BatchObjects :: counter_vec
  VerifyResults :: counter_vec

definition metrics_New :: Metrics where
  "metrics_New = \<lparr>HTTPRequests = (\<lambda>_. 0), HTTPDuration = (\<lambda>_. []), AuthCache = (\<lambda>_. 0),
     GitHubRequests = (\<lambda>_. 0), GitHubDuration = (\<lambda>_. []), S3Requests = (\<lambda>_. 0),
     S3Duration = (\<lambda>_. []), BatchObjects = (\<lambda>_. 0), VerifyResults = (\<lambda>_. 0)\<rparr>"

definition inc :: "string list \<Rightarrow> counter_vec \<Rightarrow> counter_vec" where
  "inc labels v = v(labels := Suc (v labels))"

definition observe :: "string list \<Rightarrow> duration \<Rightarrow> histogram_vec \<Rightarrow> histogram_vec" where
  "observe labels d h = h(labels := h labels @ [d])"

lemma observe_apply: "observe ls d h ls' = (if ls' = ls then h ls @ [d] else h ls')"
  by (simp add: observe_def)

lemma inc_apply: "inc ls v ls' = (if ls' = ls then Suc (v ls) else v ls')"
  by (simp add: inc_def)

lemma inc_commute: "inc a (inc b v) = inc b (inc a v)"
  by (auto simp: inc_def fun_eq_iff)

lemma inc_commute_comp: "inc a \<circ> inc b = inc b \<circ> inc a"
  by (simp add: fun_eq_iff inc_commute)

lemma fold_inc_count: "fold inc lss v ls = v ls + count_list lss ls"
  by (induction lss arbitrary: v) (auto simp: inc_apply)

subsection \<open>Registration\<close>

datatype collector =
    CounterVec string string "string list"
  | HistogramVec string string "string list"
  | GaugeFunc string string "(string \<times> string) list" int
  | GoCollector
  | ProcessCollector

definition golfs_collectors :: "string \<Rightarrow> string \<Rightarrow> collector list" where
  "golfs_collectors version commit =
     [CounterVec ''golfs_http_requests_total'' ''HTTP requests handled by GOLFS.'' [''listener'', ''route'', ''method'', ''status''],
      HistogramVec ''golfs_http_request_duration_seconds'' ''HTTP request duration.'' [''listener'', ''route'', ''method''],
      CounterVec ''golfs_auth_cache_requests_total'' ''Authorization cache outcomes.'' [''result''],
      CounterVec ''golfs_github_requests_total'' ''GitHub API request outcomes.'' [''operation'', ''status''],
      HistogramVec ''golfs_github_request_duration_seconds'' ''GitHub API request duration.'' [''operation''],
      CounterVec ''golfs_s3_requests_total'' ''S3 API request outcomes.'' [''operation'', ''status''],
      HistogramVec ''golfs_s3_request_duration_seconds'' ''S3 API request duration.'' [''operation''],
      CounterVec ''golfs_batch_objects_total'' ''Objects returned by Batch operations.'' [''operation'', ''result''],
      CounterVec ''golfs_verify_results_total'' ''Upload verification outcomes.'' [''result''],
      GoCollector, ProcessCollector,
      GaugeFunc ''golfs_build_info'' ''Build information for GOLFS.'' [(''version'', version), (''commit'', commit)] 1]"

text \<open>
  New as a whole: \<open>accepts\<close> stands for the registry, whose MustRegister panics, here None, unless
  it accepts the collectors.
\<close>

definition metrics_create :: "(collector list \<Rightarrow> bool) \<Rightarrow> string \<Rightarrow> string \<Rightarrow> Metrics option" where
  "metrics_create accepts version commit =
     (if accepts (golfs_collectors version commit) then Some metrics_New else None)"

text \<open>
  What the registry documents: it accepts collectors of different names, built from letters,
  digits and underscores, with different label names, valid UTF-8 in constant labels, and apart
  from the names of the two collectors of the library.
\<close>

definition plain_name :: "string \<Rightarrow> bool" where
  "plain_name s = (s \<noteq> [] \<and> list_all (\<lambda>c. c \<in> set ''abcdefghijklmnopqrstuvwxyz0123456789_'') s
     \<and> hd s \<in> set ''abcdefghijklmnopqrstuvwxyz'')"

fun collector_name :: "collector \<Rightarrow> string" where
  "collector_name (CounterVec n _ _) = n"
| "collector_name (HistogramVec n _ _) = n"
| "collector_name (GaugeFunc n _ _ _) = n"
| "collector_name GoCollector = ''go_''"
| "collector_name ProcessCollector = ''process_''"

fun collector_labels :: "collector \<Rightarrow> string list" where
  "collector_labels (CounterVec _ _ ls) = ls"
| "collector_labels (HistogramVec _ _ ls) = ls"
| "collector_labels (GaugeFunc _ _ ls _) = map fst ls"
| "collector_labels _ = []"

fun constant_values :: "collector \<Rightarrow> string list" where
  "constant_values (GaugeFunc _ _ ls _) = map snd ls"
| "constant_values _ = []"

definition well_described :: "collector list \<Rightarrow> bool" where
  "well_described cs =
     (distinct (map collector_name cs) \<and> list_all (\<lambda>c. plain_name (collector_name c)
        \<and> list_all plain_name (collector_labels c) \<and> distinct (collector_labels c)
        \<and> list_all (\<lambda>v. utf8_coerce v = v) (constant_values c)
        \<and> (c \<in> {GoCollector, ProcessCollector}
           \<or> \<not> has_prefix (collector_name c) ''go_'' \<and> \<not> has_prefix (collector_name c) ''process_'')) cs)"

text \<open>
  Registration never panics at startup, whatever text the build put into version and
  commit: names and labels are well formed, and no two collectors collide.
\<close>

theorem metrics_always_registered:
  assumes "\<And>cs. well_described cs \<Longrightarrow> accepts cs" and "utf8_coerce version = version" and "utf8_coerce commit = commit"
  shows "metrics_create accepts version commit = Some metrics_New"
proof -
  let ?cs = "golfs_collectors version commit"
  have names: "map collector_name ?cs = map collector_name (golfs_collectors [] [])"
    and labels: "map collector_labels ?cs = map collector_labels (golfs_collectors [] [])"
    by (simp_all add: golfs_collectors_def)
  have "distinct (map collector_name (golfs_collectors [] []))"
    "list_all plain_name (map collector_name (golfs_collectors [] []))"
    "list_all (\<lambda>ls. list_all plain_name ls \<and> distinct ls) (map collector_labels (golfs_collectors [] []))"
    by code_simp+
  moreover have "list_all (\<lambda>c. list_all (\<lambda>v. utf8_coerce v = v) (constant_values c)) ?cs"
    using assms(2,3) by (simp add: golfs_collectors_def)
  moreover have "list_all (\<lambda>c. c \<in> {GoCollector, ProcessCollector}
      \<or> \<not> has_prefix (collector_name c) ''go_'' \<and> \<not> has_prefix (collector_name c) ''process_'') ?cs"
    by (simp add: golfs_collectors_def has_prefix_def)
  ultimately have "well_described ?cs"
    unfolding names [symmetric] labels [symmetric] by (simp add: well_described_def list_all_iff)
  then show ?thesis using assms(1) by (simp add: metrics_create_def)
qed

lemma metrics_always_registered_witness:
  "metrics_create well_described ''dev'' ''unknown'' = Some metrics_New"
proof -
  have "utf8_coerce ''dev'' = ''dev''" "utf8_coerce ''unknown'' = ''unknown''" by code_simp+
  from metrics_always_registered [OF _ this, of well_described] show ?thesis by simp
qed

subsection \<open>The status recorder\<close>

record 'p statusRecorder =
  rec_inner :: "'p response"
  rec_status :: int
  rec_wroteHeader :: bool

definition new_recorder :: "'p response \<Rightarrow> 'p statusRecorder" where
  "new_recorder w = \<lparr>rec_inner = w, rec_status = 200, rec_wroteHeader = False\<rparr>"

definition recorder_WriteHeader :: "int \<Rightarrow> 'p statusRecorder \<Rightarrow> 'p statusRecorder" where
  "recorder_WriteHeader status w =
     (if rec_wroteHeader w then w
      else w\<lparr>rec_wroteHeader := True, rec_status := status,
             rec_inner := write_header status (rec_inner w)\<rparr>)"

text \<open>Header and Write are promoted from the embedded ResponseWriter.\<close>

fun do_recorder_write :: "'p statusRecorder \<Rightarrow> 'p write_op \<Rightarrow> 'p statusRecorder" where
  "do_recorder_write w (WriteHeader code) = recorder_WriteHeader code w"
| "do_recorder_write w op = w\<lparr>rec_inner := do_write (rec_inner w) op\<rparr>"

definition run_recorder :: "'p write_op list \<Rightarrow> 'p statusRecorder \<Rightarrow> 'p statusRecorder" where
  "run_recorder ops w = foldl do_recorder_write w ops"

text \<open>
  Instrument serves a request through a recorder, counts it under the recorded status and
  observes how long it took. \<open>ops\<close> are the calls the wrapped handler makes on its
  ResponseWriter, \<open>period\<close> what the clock shows before and after them.
\<close>

definition Instrument ::
    "string \<Rightarrow> string \<Rightarrow> string \<Rightarrow> time \<times> time \<Rightarrow> 'p write_op list \<Rightarrow> Metrics \<times> 'p response \<Rightarrow> Metrics \<times> 'p response" where
  "Instrument listener route meth period ops mw =
     (let (started, finished) = period; recorder = run_recorder ops (new_recorder (snd mw)); m = fst mw in
      (m\<lparr>HTTPRequests := inc [listener, route, meth, format_int (rec_status recorder)] (HTTPRequests m),
         HTTPDuration := observe [listener, route, meth] (time_sub finished started) (HTTPDuration m)\<rparr>,
       rec_inner recorder))"

lemma run_recorder_simps [simp]:
  "run_recorder [] w = w"
  "run_recorder (op # ops) w = run_recorder ops (do_recorder_write w op)"
  by (simp_all add: run_recorder_def)

text \<open>A handler that writes its status before any body byte.\<close>

fun status_first :: "'p write_op list \<Rightarrow> bool" where
  "status_first [] = True"
| "status_first (WriteHeader c # ops) = True"
| "status_first (SetHeader k v # ops) = status_first ops"
| "status_first (Write p # ops) = False"

lemma recorder_transparent_wrote:
  assumes "rec_wroteHeader w" "sent (rec_inner w) = Some (rec_status w, h)"
  shows "rec_inner (run_recorder ops w) = run_writes ops (rec_inner w)
    \<and> rec_status (run_recorder ops w) = rec_status w"
  using assms
proof (induction ops arbitrary: w)
  case (Cons op ops)
  then show ?case by (cases op) (auto simp: recorder_WriteHeader_def Let_def)
qed simp

lemma recorder_transparent:
  "status_first ops \<Longrightarrow> \<not> rec_wroteHeader w \<Longrightarrow> rec_status w = 200 \<Longrightarrow> sent (rec_inner w) = None \<Longrightarrow>
     rec_inner (run_recorder ops w) = run_writes ops (rec_inner w)
     \<and> rec_status (run_recorder ops w) = final_status (run_writes ops (rec_inner w))"
proof (induction ops arbitrary: w rule: status_first.induct)
  case (2 c ops)
  let ?w = "recorder_WriteHeader c w"
  have w: "rec_wroteHeader ?w" "rec_status ?w = c" "rec_inner ?w = write_header c (rec_inner w)"
    using "2.prems" by (simp_all add: recorder_WriteHeader_def)
  then have s: "sent (rec_inner ?w) = Some (rec_status ?w, hdr (rec_inner w))"
    using "2.prems" by simp
  have "final_status (run_writes ops (rec_inner ?w)) = c"
    using sent_run_writes [OF s, of ops] w by (simp add: final_status_def)
  with recorder_transparent_wrote [OF w(1) s, of ops] w show ?case by simp
qed (auto simp: final_status_def)

text \<open>
  The instrumentation is transparent and truthful for handlers that write their status
  first: the client receives what the handler wrote, and the request is counted once,
  under the status the client received.
\<close>

theorem instrument_truthful:
  assumes "status_first ops"
  shows "snd (Instrument listener route meth period ops (m, empty_response)) = run_writes ops empty_response
    \<and> HTTPRequests (fst (Instrument listener route meth period ops (m, empty_response)))
      = inc [listener, route, meth, format_int (final_status (run_writes ops empty_response))] (HTTPRequests m)"
  using recorder_transparent [OF assms, of "new_recorder empty_response"]
  by (simp add: Instrument_def new_recorder_def empty_response_def Let_def split_def)

theorem instrument_truthful_witness:
  "snd (Instrument ''public'' ''batch'' ''POST'' (0, 5) [WriteHeader 404, Write ''x''] (metrics_New, empty_response))
    = run_writes [WriteHeader 404, Write ''x''] empty_response"
  using instrument_truthful [of "[WriteHeader 404, Write ''x'']" "''public''" "''batch''" "''POST''" "(0, 5)" metrics_New]
  by simp

end
