(* ===== verification/Storage.thy ===== *)
theory Storage
  imports Go_Errors
begin

section \<open>Package storage: the object boundary\<close>

text \<open>
  \<^verbatim>\<open>internal/storage/storage.go\<close>: object metadata, presigned actions, and the interface
  \<^verbatim>\<open>ObjectStore\<close>. An action's header map is a partial map, as in the source. The interface is
  a record of the three operations the protocol calls; the contract of an implementation is
  the locale \<open>object_store\<close>.
\<close>

record object =
  obj_Size :: int64

record storage_action =
  act_Href :: string
  act_Header :: "string \<rightharpoonup> string"
  act_ExpiresIn :: int64

record ObjectStore =
  store_Head :: "int64 \<Rightarrow> string \<Rightarrow> (err, object) result"
  store_PresignUpload :: "int64 \<Rightarrow> string \<Rightarrow> int64 \<Rightarrow> (err, storage_action) result"
  store_PresignDownload :: "int64 \<Rightarrow> string \<Rightarrow> (err, storage_action) result"

text \<open>
  The promises of an implementation: objects and actions exist for well-formed OIDs only,
  and a presigned action is a grant for exactly the object and, for an upload, the size it
  was asked for. What a grant is depends on the implementation.
\<close>

locale object_store =
  fixes store :: ObjectStore
    and wellformed :: "string \<Rightarrow> bool"
    and upload_grant :: "int64 \<Rightarrow> string \<Rightarrow> int64 \<Rightarrow> storage_action \<Rightarrow> bool"
    and download_grant :: "int64 \<Rightarrow> string \<Rightarrow> storage_action \<Rightarrow> bool"
  assumes head_wellformed: "store_Head store repo oid = Inr ob \<Longrightarrow> wellformed oid"
    and upload_wellformed: "store_PresignUpload store repo oid n = Inr a \<Longrightarrow> wellformed oid"
    and upload_scoped: "store_PresignUpload store repo oid n = Inr a \<Longrightarrow> upload_grant repo oid n a"
    and download_scoped: "store_PresignDownload store repo oid = Inr a \<Longrightarrow> download_grant repo oid a"

end
