(* ===== verification/S3_Store.thy ===== *)
theory S3_Store
  imports Config Observability Storage
begin

section \<open>Package s3store: objects and presigned actions\<close>

text \<open>
  \<^verbatim>\<open>internal/storage/s3store/s3store.go\<close>. The AWS SDK is a record of functions over a world
  state: what a bucket or object request answers, what the presigner signs, and the finalize
  step of its middleware stack, into which the store swaps the payload hash; \<open>sdk_now\<close> is what the
  clock of the world shows. An SDK error is
  what the two \<^verbatim>\<open>errors.As\<close> tests of \<^verbatim>\<open>mapError\<close> can see of it. Every operation takes and
  returns the store, whose metrics it counts in, together with the world.
\<close>

subsection \<open>The SDK\<close>

record sdk_error =
  http_status :: "int option"     \<comment> \<open>a smithyhttp.ResponseError in the chain\<close>
  error_code :: "string option"   \<comment> \<open>a smithy.APIError in the chain\<close>

datatype middleware =
    UnsignedPayload
  | StaticPayloadHash string
  | Middleware string

text \<open>The context a finalize step hands on; only the payload hash is read later.\<close>

record finalize_context =
  payload_hash :: "string option"

record put_input =
  put_Bucket :: string
  put_Key :: string
  put_ContentLength :: int64
  put_IfNoneMatch :: string

text \<open>A Go map is given by its pairs in the order the range loop of one run meets them.\<close>

record presigned =
  ps_URL :: string
  ps_SignedHeader :: "(string \<times> string list) list"

record 'w sdk =
  sdk_now :: "'w \<Rightarrow> time"
  load_default_config :: "string \<Rightarrow> bool"
  sdk_HeadBucket :: "string \<Rightarrow> 'w \<Rightarrow> sdk_error option \<times> 'w"
  sdk_HeadObject :: "string \<Rightarrow> string \<Rightarrow> 'w \<Rightarrow> (sdk_error, int64 option) result \<times> 'w"
  finalize_stack :: "middleware list"
  unsigned_payload_id :: string
  add_content_sha256 :: "middleware list \<Rightarrow> middleware list option"
  sdk_PresignPut :: "put_input \<Rightarrow> duration \<Rightarrow> middleware list \<Rightarrow> 'w \<Rightarrow> (sdk_error, presigned) result \<times> 'w"
  sdk_PresignGet :: "string \<Rightarrow> string \<Rightarrow> duration \<Rightarrow> 'w \<Rightarrow> (sdk_error, presigned) result \<times> 'w"

subsection \<open>The store\<close>

record S3Config =
  s3_Endpoint :: string
  s3_Region :: string
  s3_Bucket :: string
  s3_UsePathStyle :: bool
  s3_PresignTTL :: duration
  s3_Metrics :: "Metrics option"

record s3_options =
  opt_BaseEndpoint :: string
  opt_UsePathStyle :: bool

record Store =
  st_bucket :: string
  st_ttl :: duration
  st_client :: s3_options
  st_metrics :: "Metrics option"

type_synonym ('w, 'a) s3 = "Store \<times> 'w \<Rightarrow> (err, 'a) result \<times> Store \<times> 'w"

definition s3_newWithClient :: "s3_options \<Rightarrow> S3Config \<Rightarrow> Store" where
  "s3_newWithClient client cfg = \<lparr>st_bucket = s3_Bucket cfg, st_ttl = s3_PresignTTL cfg,
     st_client = client, st_metrics = s3_Metrics cfg\<rparr>"

definition s3_New :: "'w sdk \<Rightarrow> S3Config \<Rightarrow> (err, Store) result" where
  "s3_New env cfg =
     (if \<not> load_default_config env (s3_Region cfg) then
        Inl (Wrapped ''load AWS configuration'' (Library (Failed ''LoadDefaultConfig'' [])))
      else Inr (s3_newWithClient
        \<lparr>opt_BaseEndpoint = s3_Endpoint cfg, opt_UsePathStyle = s3_UsePathStyle cfg\<rparr> cfg))"

definition mapError :: "sdk_error \<Rightarrow> err" where
  "mapError e =
     (if http_status e = Some 404 then ErrStorageNotFound
      else if http_status e \<in> Some ` {429, 500, 502, 503, 504} then ErrStorageUnavailable
      else if error_code e \<in> Some ` {''NotFound'', ''NoSuchKey'', ''NoSuchBucket''} then ErrStorageNotFound
      else if error_code e \<in> Some ` {''SlowDown'', ''RequestTimeout'', ''ServiceUnavailable'', ''InternalError''}
        then ErrStorageUnavailable
      else ErrStorageUnavailable)"

definition s3_result :: "sdk_error option \<Rightarrow> string" where
  "s3_result e =
     (case e of None \<Rightarrow> ''success''
      | Some e \<Rightarrow> if errors_is (mapError e) ErrStorageNotFound then ''not_found'' else ''error'')"

definition s3_observe :: "string \<Rightarrow> string \<Rightarrow> time \<Rightarrow> time \<Rightarrow> Store \<Rightarrow> Store" where
  "s3_observe operation status started now st =
     (case st_metrics st of
        None \<Rightarrow> st
      | Some m \<Rightarrow> st\<lparr>st_metrics := Some (m
          \<lparr>S3Requests := inc [operation, status] (S3Requests m),
           S3Duration := observe [operation] (time_sub now started) (S3Duration m)\<rparr>)\<rparr>)"

definition s3_Validate :: "'w sdk \<Rightarrow> ('w, unit) s3" where
  "s3_Validate env s =
     (let st = fst s; (e, w) = sdk_HeadBucket env (st_bucket st) (snd s);
          st' = s3_observe ''head_bucket'' (s3_result e) (sdk_now env (snd s)) (sdk_now env w) st
      in case e of
           Some e \<Rightarrow> (Inl (Wrapped ''check S3 bucket access'' (mapError e)), (st', w))
         | None \<Rightarrow> (Inr (), (st', w)))"

definition Key :: "golib \<Rightarrow> int64 \<Rightarrow> string \<Rightarrow> (err, string) result" where
  "Key g repositoryID oid =
     (if length oid \<noteq> 64 \<or> oid \<noteq> ToLower g oid then Inl (Message ''invalid SHA-256 OID'')
      else case hex_decode oid of
        None \<Rightarrow> Inl (Message ''invalid SHA-256 OID'')
      | Some digest \<Rightarrow>
          if length digest \<noteq> 32 then Inl (Message ''invalid SHA-256 OID'')
          else Inr (''github/'' @ format_int repositoryID @ ''/objects/'' @ take 2 oid @ ''/''
                    @ take 2 (drop 2 oid) @ ''/'' @ oid))"

definition Head :: "golib \<Rightarrow> 'w sdk \<Rightarrow> int64 \<Rightarrow> string \<Rightarrow> ('w, object) s3" where
  "Head g env repositoryID oid s =
     (case Key g repositoryID oid of
        Inl e \<Rightarrow> (Inl e, s)
      | Inr key \<Rightarrow>
          (let st = fst s; started = sdk_now env (snd s) in
           case sdk_HeadObject env (st_bucket st) key (snd s) of
             (Inl e, w) \<Rightarrow> (Inl (mapError e), (s3_observe ''head_object'' (s3_result (Some e)) started (sdk_now env w) st, w))
           | (Inr len, w) \<Rightarrow>
               (Inr \<lparr>obj_Size = (case len of None \<Rightarrow> 0 | Some n \<Rightarrow> n)\<rparr>,
                (s3_observe ''head_object'' (s3_result None) started (sdk_now env w) st, w))))"

text \<open>
  The loop over the signed headers. The seconds of the TTL are exact below 2^20 seconds,
  which covers the greatest TTL of the configuration: the fraction has nine digits, and a
  double has enough bits for both parts.
\<close>

fun action_headers :: "(string \<rightharpoonup> string) \<Rightarrow> (string \<times> string list) list \<Rightarrow> (string \<rightharpoonup> string)" where
  "action_headers headers [] = headers"
| "action_headers headers ((name, values) # hdrs) =
     action_headers
       (case values of
          v # _ \<Rightarrow> if \<not> equal_fold name ''host'' then headers(name \<mapsto> v) else headers
        | [] \<Rightarrow> headers) hdrs"

definition actionFromRequest :: "string \<Rightarrow> (string \<times> string list) list \<Rightarrow> duration \<Rightarrow> storage_action" where
  "actionFromRequest href hdrs lifetime = \<lparr>act_Href = href,
     act_Header = action_headers Map.empty hdrs, act_ExpiresIn = quot lifetime second\<rparr>"

subsection \<open>Presigning\<close>

definition middleware_ID :: "'w sdk \<Rightarrow> middleware \<Rightarrow> string" where
  "middleware_ID env m =
     (case m of UnsignedPayload \<Rightarrow> unsigned_payload_id env
      | StaticPayloadHash _ \<Rightarrow> unsigned_payload_id env
      | Middleware i \<Rightarrow> i)"

text \<open>What the store's own middleware does when the stack runs: it sets the hash and goes on.\<close>

definition HandleFinalize ::
    "string \<Rightarrow> finalize_context \<Rightarrow> 'i \<Rightarrow> (finalize_context \<Rightarrow> 'i \<Rightarrow> 'o) \<Rightarrow> 'o" where
  "HandleFinalize hash ctx input nxt = nxt (ctx\<lparr>payload_hash := Some hash\<rparr>) input"

fun swap_middleware :: "'w sdk \<Rightarrow> string \<Rightarrow> middleware \<Rightarrow> middleware list \<Rightarrow> middleware list option" where
  "swap_middleware env i m [] = None"
| "swap_middleware env i m (x # stack) =
     (if middleware_ID env x = i then Some (m # stack)
      else map_option ((#) x) (swap_middleware env i m stack))"

definition bindPayloadHash :: "'w sdk \<Rightarrow> string \<Rightarrow> middleware list \<Rightarrow> (err, middleware list) result" where
  "bindPayloadHash env payloadHash stack =
     (case swap_middleware env (unsigned_payload_id env) (StaticPayloadHash payloadHash) stack of
        None \<Rightarrow> Inl (Wrapped ''replace S3 presign payload hash middleware'' (Library (Failed ''Swap'' [])))
      | Some swapped \<Rightarrow>
          (case add_content_sha256 env swapped of
             None \<Rightarrow> Inl (Wrapped ''add S3 content SHA-256 header middleware'' (Library (Failed ''Insert'' [])))
           | Some final \<Rightarrow> Inr final))"

definition put_request :: "Store \<Rightarrow> string \<Rightarrow> int64 \<Rightarrow> put_input" where
  "put_request st key n = \<lparr>put_Bucket = st_bucket st, put_Key = key, put_ContentLength = n,
     put_IfNoneMatch = ''*''\<rparr>"

text \<open>An API option that fails makes the SDK call fail, with an error of neither tested kind.\<close>

definition presign_put ::
    "'w sdk \<Rightarrow> Store \<Rightarrow> string \<Rightarrow> string \<Rightarrow> int64 \<Rightarrow> 'w \<Rightarrow> (sdk_error, presigned) result \<times> 'w" where
  "presign_put env st key oid n w =
     (case bindPayloadHash env oid (finalize_stack env) of
        Inl _ \<Rightarrow> (Inl \<lparr>http_status = None, error_code = None\<rparr>, w)
      | Inr stack \<Rightarrow> sdk_PresignPut env (put_request st key n) (st_ttl st) stack w)"

definition PresignUpload :: "golib \<Rightarrow> 'w sdk \<Rightarrow> int64 \<Rightarrow> string \<Rightarrow> int64 \<Rightarrow> ('w, storage_action) s3" where
  "PresignUpload g env repositoryID oid n s =
     (case Key g repositoryID oid of
        Inl e \<Rightarrow> (Inl e, s)
      | Inr key \<Rightarrow>
          (let st = fst s; started = sdk_now env (snd s) in
           case presign_put env st key oid n (snd s) of
             (Inl e, w) \<Rightarrow> (Inl (Wrapped ''presign S3 upload'' ErrStorageUnavailable),
                            (s3_observe ''presign_put_object'' (s3_result (Some e)) started (sdk_now env w) st, w))
           | (Inr p, w) \<Rightarrow> (Inr (actionFromRequest (ps_URL p) (ps_SignedHeader p) (st_ttl st)),
                            (s3_observe ''presign_put_object'' (s3_result None) started (sdk_now env w) st, w))))"

definition PresignDownload :: "golib \<Rightarrow> 'w sdk \<Rightarrow> int64 \<Rightarrow> string \<Rightarrow> ('w, storage_action) s3" where
  "PresignDownload g env repositoryID oid s =
     (case Key g repositoryID oid of
        Inl e \<Rightarrow> (Inl e, s)
      | Inr key \<Rightarrow>
          (let st = fst s; started = sdk_now env (snd s) in
           case sdk_PresignGet env (st_bucket st) key (st_ttl st) (snd s) of
             (Inl e, w) \<Rightarrow> (Inl (Wrapped ''presign S3 download'' ErrStorageUnavailable),
                            (s3_observe ''presign_get_object'' (s3_result (Some e)) started (sdk_now env w) st, w))
           | (Inr p, w) \<Rightarrow> (Inr (actionFromRequest (ps_URL p) (ps_SignedHeader p) (st_ttl st)),
                            (s3_observe ''presign_get_object'' (s3_result None) started (sdk_now env w) st, w))))"

text \<open>Counting keeps the settings of the store.\<close>

lemma s3_observe_keeps [simp]:
  "st_bucket (s3_observe oper status started now st) = st_bucket st" "st_ttl (s3_observe oper status started now st) = st_ttl st"
  by (simp_all add: s3_observe_def split: option.split)

lemma s3_Validate_keeps:
  "st_bucket (fst (snd (s3_Validate env s))) = st_bucket (fst s)" "st_ttl (fst (snd (s3_Validate env s))) = st_ttl (fst s)"
  by (simp_all add: s3_Validate_def Let_def split: prod.split option.split)

subsection \<open>Keys\<close>

text \<open>What the three tests of an OID amount to.\<close>

definition lower_hex :: "string \<Rightarrow> bool" where
  "lower_hex s = (set s \<subseteq> set ''0123456789abcdef'')"

lemma lower_hex_digit: "hex_value c \<noteq> None \<and> lower_char c = c \<longleftrightarrow> c \<in> set ''0123456789abcdef''"
proof -
  have "c = char_of (byte c)" by simp
  moreover have "hex_value c \<noteq> None \<and> lower_char c = c \<longleftrightarrow>
      (48 \<le> byte c \<and> byte c \<le> 57) \<or> (97 \<le> byte c \<and> byte c \<le> 102)"
    by (auto simp: lower_char_eq_self hex_value_def)
  moreover have "(48 \<le> n \<and> n \<le> 57) \<or> (97 \<le> n \<and> n \<le> 102) \<longleftrightarrow>
      n \<in> {48,49,50,51,52,53,54,55,56,57,97,98,99,100,101,102}" for n :: nat
    by simp presburger
  moreover have "byte c \<in> {48,49,50,51,52,53,54,55,56,57,97,98,99,100,101,102} \<longleftrightarrow> c \<in> set ''0123456789abcdef''"
    by (auto simp flip: byte_inject)
  ultimately show ?thesis by simp
qed

lemma oid_tests:
  "s = ToLower g s \<and> hex_decode s \<noteq> None \<longleftrightarrow> lower_hex s \<and> even (length s)"
proof
  assume l: "s = ToLower g s \<and> hex_decode s \<noteq> None"
  then have "map lower_char s = s" using hex_decode_ascii [of s] by (metis to_lower_ascii)
  then have "list_all (\<lambda>c. lower_char c = c) s" by (simp add: list_all_iff map_idI [symmetric] list_eq_iff_nth_eq all_set_conv_all_nth)
  with l show "lower_hex s \<and> even (length s)"
    using lower_hex_digit unfolding hex_decode_digits lower_hex_def list_all_iff by blast
next
  assume r: "lower_hex s \<and> even (length s)"
  then have d: "hex_value c \<noteq> None" "lower_char c = c" if "c \<in> set s" for c
    using that lower_hex_digit unfolding lower_hex_def by blast+
  then have "hex_decode s \<noteq> None" using r unfolding hex_decode_digits list_all_iff by blast
  moreover have "map lower_char s = s" using d(2) by (simp add: map_idI)
  ultimately show "s = ToLower g s \<and> hex_decode s \<noteq> None"
    using hex_decode_ascii [of s] by simp
qed

definition well_formed_oid :: "string \<Rightarrow> bool" where
  "well_formed_oid s = (length s = 64 \<and> lower_hex s)"

definition object_key :: "int64 \<Rightarrow> string \<Rightarrow> string" where
  "object_key repo oid = join_with (CHR ''/'')
     [''github'', format_int repo, ''objects'', take 2 oid, take 2 (drop 2 oid), oid]"

lemma Key_cases:
  "Key g repo oid = (if well_formed_oid oid then Inr (object_key repo oid) else Inl (Message ''invalid SHA-256 OID''))"
proof (cases "length oid = 64")
  case True
  then have tests: "oid = ToLower g oid \<and> hex_decode oid \<noteq> None \<longleftrightarrow> lower_hex oid"
    using oid_tests [of oid g] by simp
  moreover have "length d = 32" if "hex_decode oid = Some d" for d
    using hex_decode_length [OF that] True by simp
  ultimately show ?thesis
    using True by (auto simp: Key_def well_formed_oid_def object_key_def split: option.splits)
qed (simp add: Key_def well_formed_oid_def)

lemma lower_hex_no_slash: "lower_hex s \<Longrightarrow> CHR ''/'' \<notin> set s"
  by (auto simp: lower_hex_def)

lemma object_key_segments:
  assumes "well_formed_oid oid"
  shows "split_on (CHR ''/'') (object_key repo oid)
    = [''github'', format_int repo, ''objects'', take 2 oid, take 2 (drop 2 oid), oid]"
proof -
  have "CHR ''/'' \<notin> set oid" using assms by (simp add: well_formed_oid_def lower_hex_no_slash)
  then have "CHR ''/'' \<notin> set (take 2 oid)" "CHR ''/'' \<notin> set (take 2 (drop 2 oid))"
    by (meson in_set_takeD in_set_dropD)+
  then show ?thesis
    unfolding object_key_def using \<open>CHR ''/'' \<notin> set oid\<close> format_int_no_slash
    by (intro split_on_join) auto
qed

text \<open>
  A key exists exactly for 64 lower-case hexadecimal digits, and it has six path
  segments: the provider, the repository ID, the objects folder, the two shards and the OID.
\<close>

theorem key_exact:
  "Key g repo oid = Inr k \<longleftrightarrow> length oid = 64 \<and> set oid \<subseteq> set ''0123456789abcdef'' \<and>
     k = ''github/'' @ format_int repo @ ''/objects/'' @ take 2 oid @ ''/'' @ take 2 (drop 2 oid) @ ''/'' @ oid"
  by (auto simp: Key_cases well_formed_oid_def lower_hex_def object_key_def)

text \<open>
  C25. Keys of different objects differ, and keys of different repositories differ even for
  the same object: no repository reaches another one's objects.
\<close>

theorem key_isolates_repositories:
  assumes "Key g repo oid = Inr k" and "Key g repo' oid' = Inr k"
    and "in_int64 repo" and "in_int64 repo'"
  shows "repo = repo' \<and> oid = oid'"
proof -
  have wf: "well_formed_oid oid" "well_formed_oid oid'" and k: "object_key repo oid = object_key repo' oid'"
    using assms by (auto simp: Key_cases split: if_splits)
  have "[''github'', format_int repo, ''objects'', take 2 oid, take 2 (drop 2 oid), oid]
      = [''github'', format_int repo', ''objects'', take 2 oid', take 2 (drop 2 oid'), oid']"
    using object_key_segments [OF wf(1), of repo] object_key_segments [OF wf(2), of repo'] k by simp
  then show ?thesis using format_int_inject [OF assms(3,4)] by simp
qed

definition oid0 :: string where
  "oid0 = concat (replicate 8 ''0123abcd'')"

lemma oid0_ok: "well_formed_oid oid0"
  by (simp add: well_formed_oid_def oid0_def lower_hex_def numeral_eq_Suc)

lemma Key_oid0: "Key g repo oid0 = Inr (object_key repo oid0)"
  by (simp add: Key_cases oid0_ok)

lemma key_isolates_repositories_witness:
  "Key lib0 41 oid0 \<noteq> Key lib0 42 oid0"
  using key_isolates_repositories [of lib0 41 oid0 "object_key 41 oid0" 42 oid0]
  by (auto simp: Key_oid0 int64_defs)

subsection \<open>Actions\<close>

text \<open>
  Whatever order the range loop meets the signed headers in, the action carries the
  first value of each header that has one, and never the Host header, under any spelling.
\<close>

theorem action_headers_exact:
  assumes "distinct (map fst hdrs)"
  shows "act_Header (actionFromRequest href hdrs lifetime) name =
    (case map_of hdrs name of
       Some (v # _) \<Rightarrow> if equal_fold name ''host'' then None else Some v
     | _ \<Rightarrow> None)"
proof -
  have "action_headers m hs name =
      (case map_of hs name of
         Some (v # _) \<Rightarrow> if equal_fold name ''host'' then m name else Some v
       | _ \<Rightarrow> m name)" if "distinct (map fst hs)" for m hs
    using that
  proof (induction m hs rule: action_headers.induct)
    case (2 m n vs hs)
    then show ?case
      by (cases "n = name"; cases "map_of hs name"; cases vs) (auto simp: rev_image_eqI dest: map_of_SomeD split: list.splits)
  qed simp
  then show ?thesis using assms by (simp add: actionFromRequest_def split: option.splits list.splits)
qed

lemma action_headers_exact_witness:
  "act_Header (actionFromRequest ''u'' [(''Host'', [''s3'']), (''If-None-Match'', [''*''])] hour) ''If-None-Match'' = Some ''*''
   \<and> act_Header (actionFromRequest ''u'' [(''Host'', [''s3'']), (''If-None-Match'', [''*''])] hour) ''Host'' = None"
proof -
  have d: "distinct (map fst [(''Host'', [''s3'']), (''If-None-Match'', [''*''])])" by simp
  have "equal_fold ''Host'' ''host''" "\<not> equal_fold ''If-None-Match'' ''host''" by code_simp+
  then show ?thesis using action_headers_exact [OF d, of "''u''" hour] by simp
qed

text \<open>An action's grant, as this provider signs it: what the presigner was asked to sign.\<close>

definition s3_upload_grant :: "golib \<Rightarrow> 'w sdk \<Rightarrow> Store \<Rightarrow> int64 \<Rightarrow> string \<Rightarrow> int64 \<Rightarrow> storage_action \<Rightarrow> bool" where
  "s3_upload_grant g env st repo oid n a =
     (\<exists>stack w p w'. bindPayloadHash env oid (finalize_stack env) = Inr stack
        \<and> sdk_PresignPut env (put_request st (object_key repo oid) n) (st_ttl st) stack w = (Inr p, w')
        \<and> a = actionFromRequest (ps_URL p) (ps_SignedHeader p) (st_ttl st))"

definition s3_download_grant :: "golib \<Rightarrow> 'w sdk \<Rightarrow> Store \<Rightarrow> int64 \<Rightarrow> string \<Rightarrow> storage_action \<Rightarrow> bool" where
  "s3_download_grant g env st repo oid a =
     (\<exists>w p w'. sdk_PresignGet env (st_bucket st) (object_key repo oid) (st_ttl st) w = (Inr p, w')
        \<and> a = actionFromRequest (ps_URL p) (ps_SignedHeader p) (st_ttl st))"

lemma presign_put_Inr:
  "presign_put env st key oid n w = (Inr p, w') \<Longrightarrow>
     \<exists>stack. bindPayloadHash env oid (finalize_stack env) = Inr stack
       \<and> sdk_PresignPut env (put_request st key n) (st_ttl st) stack w = (Inr p, w')"
  by (auto simp: presign_put_def split: sum.splits)

text \<open>
  C26. An upload action is a signature over exactly the object's key in the configured bucket,
  the announced length, the condition that nothing is there yet, the configured lifetime, and
  the OID as the payload hash; it exists for well-formed OIDs only.
\<close>

theorem upload_action_bound:
  assumes "PresignUpload g env repo oid n (st, w) = (Inr a, (st', w'))"
  shows "well_formed_oid oid \<and> act_ExpiresIn a = quot (st_ttl st) second
    \<and> (\<exists>stack p. bindPayloadHash env oid (finalize_stack env) = Inr stack
        \<and> sdk_PresignPut env \<lparr>put_Bucket = st_bucket st, put_Key = object_key repo oid,
              put_ContentLength = n, put_IfNoneMatch = ''*''\<rparr> (st_ttl st) stack w = (Inr p, w')
        \<and> act_Href a = ps_URL p \<and> act_Header a ''host'' = None)"
proof -
  obtain p where wf: "well_formed_oid oid" and p: "presign_put env st (object_key repo oid) oid n w = (Inr p, w')"
    "a = actionFromRequest (ps_URL p) (ps_SignedHeader p) (st_ttl st)"
    using assms by (auto simp: PresignUpload_def Key_cases Let_def split: if_splits prod.splits sum.splits)
  have none: "action_headers m hs ''host'' = m ''host''" for m hs
    by (induction m hs rule: action_headers.induct) (auto split: list.splits)
  show ?thesis using presign_put_Inr [OF p(1)] wf p(2) none
    by (auto simp: put_request_def actionFromRequest_def)
qed

text \<open>Swapping finds the hash step wherever it stands and leaves the other steps in place.\<close>

lemma swap_middleware_exact:
  "swap_middleware env i m stack = Some stack' \<longleftrightarrow>
     (\<exists>pre x post. stack = pre @ x # post \<and> middleware_ID env x = i
        \<and> (\<forall>y\<in>set pre. middleware_ID env y \<noteq> i) \<and> stack' = pre @ m # post)"
    (is "_ \<longleftrightarrow> ?split stack stack'")
proof (induction stack arbitrary: stack')
  case (Cons y stack)
  show ?case
  proof (cases "middleware_ID env y = i")
    case True
    then have "?split (y # stack) stack' \<longleftrightarrow> stack' = m # stack"
      by (auto simp: Cons_eq_append_conv intro!: exI [of _ "[]"])
    then show ?thesis using True by auto
  next
    case False
    have split: "?split (y # stack) stack' \<longleftrightarrow> (\<exists>r. stack' = y # r \<and> ?split stack r)"
    proof
      assume "?split (y # stack) stack'"
      then obtain pre x post where *: "y # stack = pre @ x # post" "middleware_ID env x = i"
        "\<forall>z\<in>set pre. middleware_ID env z \<noteq> i" "stack' = pre @ m # post" by blast
      then show "\<exists>r. stack' = y # r \<and> ?split stack r" using False by (cases pre) auto
    next
      assume "\<exists>r. stack' = y # r \<and> ?split stack r"
      then obtain r pre x post where "stack' = y # r" "stack = pre @ x # post" "middleware_ID env x = i"
        "\<forall>z\<in>set pre. middleware_ID env z \<noteq> i" "r = pre @ m # post" by blast
      then show "?split (y # stack) stack'" using False
        by (intro exI [of _ "y # pre"] exI [of _ x] exI [of _ post]) simp
    qed
    have "swap_middleware env i m (y # stack) = Some stack'
        \<longleftrightarrow> (\<exists>r. stack' = y # r \<and> swap_middleware env i m stack = Some r)"
      using False by auto
    then show ?thesis unfolding split Cons.IH .
  qed
qed simp

text \<open>
  Binding the payload hash puts the step with the OID in the place of the SDK's
  unsigned-payload step, before the header step is added, and fails exactly when there is no
  such step or the header step cannot be added: no upload is signed without the hash.
\<close>

theorem payload_hash_bound:
  "bindPayloadHash env oid stack = Inr final \<longleftrightarrow>
     (\<exists>pre x post. stack = pre @ x # post \<and> middleware_ID env x = unsigned_payload_id env
        \<and> (\<forall>y\<in>set pre. middleware_ID env y \<noteq> unsigned_payload_id env)
        \<and> add_content_sha256 env (pre @ StaticPayloadHash oid # post) = Some final)"
    (is "?bound \<longleftrightarrow> ?swapped")
proof
  assume ?bound
  then obtain swapped where
    "swap_middleware env (unsigned_payload_id env) (StaticPayloadHash oid) stack = Some swapped"
    "add_content_sha256 env swapped = Some final"
    by (auto simp: bindPayloadHash_def split: option.splits)
  then show ?swapped unfolding swap_middleware_exact by blast
next
  assume ?swapped
  then obtain pre x post where "stack = pre @ x # post" "middleware_ID env x = unsigned_payload_id env"
    "\<forall>y\<in>set pre. middleware_ID env y \<noteq> unsigned_payload_id env"
    and final: "add_content_sha256 env (pre @ StaticPayloadHash oid # post) = Some final" by blast
  then have "swap_middleware env (unsigned_payload_id env) (StaticPayloadHash oid) stack
      = Some (pre @ StaticPayloadHash oid # post)"
    unfolding swap_middleware_exact by blast
  with final show ?bound by (simp add: bindPayloadHash_def)
qed

subsection \<open>Errors and the bucket\<close>

text \<open>
  An object is reported absent exactly when the provider says so: by status 404, or by
  one of its three codes for a missing name under a status that does not speak of an outage.
  Everything else, an error the SDK cannot classify included, is unavailable.
\<close>

theorem missing_object_classified:
  "(mapError e = ErrStorageNotFound \<longleftrightarrow>
     http_status e = Some 404
     \<or> http_status e \<notin> {Some 429, Some 500, Some 502, Some 503, Some 504}
        \<and> error_code e \<in> {Some ''NotFound'', Some ''NoSuchKey'', Some ''NoSuchBucket''})
   \<and> (mapError e \<noteq> ErrStorageNotFound \<longleftrightarrow> mapError e = ErrStorageUnavailable)"
  by (simp add: mapError_def image_def)

text \<open>The store as the protocol sees it: what each call returns from the state it runs in.\<close>

definition s3_view ::
    "golib \<Rightarrow> 'w sdk \<Rightarrow> Store \<times> 'w \<Rightarrow> Store \<times> 'w \<Rightarrow> Store \<times> 'w \<Rightarrow> ObjectStore" where
  "s3_view g env s1 s2 s3 = \<lparr>
     store_Head = (\<lambda>repo oid. fst (Head g env repo oid s1)),
     store_PresignUpload = (\<lambda>repo oid n. fst (PresignUpload g env repo oid n s2)),
     store_PresignDownload = (\<lambda>repo oid. fst (PresignDownload g env repo oid s3))\<rparr>"

interpretation s3: object_store "s3_view g env s1 s2 s3" well_formed_oid
  "s3_upload_grant g env (fst s2)" "s3_download_grant g env (fst s3)"
proof unfold_locales
  fix repo oid ob n a
  show "store_Head (s3_view g env s1 s2 s3) repo oid = Inr ob \<Longrightarrow> well_formed_oid oid"
    by (auto simp: s3_view_def Head_def Key_cases split: if_splits)
  show "store_PresignUpload (s3_view g env s1 s2 s3) repo oid n = Inr a \<Longrightarrow> well_formed_oid oid"
    by (auto simp: s3_view_def PresignUpload_def Key_cases split: if_splits)
  show "s3_upload_grant g env (fst s2) repo oid n a"
    if "store_PresignUpload (s3_view g env s1 s2 s3) repo oid n = Inr a"
    using that
    by (cases s2) (auto simp: s3_view_def s3_upload_grant_def PresignUpload_def Key_cases Let_def
        split: if_splits prod.splits sum.splits dest!: presign_put_Inr)
  show "s3_download_grant g env (fst s3) repo oid a"
    if "store_PresignDownload (s3_view g env s1 s2 s3) repo oid = Inr a"
    using that
    by (cases s3) (auto simp: s3_view_def s3_download_grant_def PresignDownload_def Key_cases Let_def
        split: if_splits prod.splits sum.splits)
qed

text \<open>A concrete SDK for the witnesses: every object has five bytes, every request is signed.\<close>

definition sdk0 :: "unit sdk" where
  "sdk0 = \<lparr>sdk_now = (\<lambda>_. 0), load_default_config = (\<lambda>_. True), sdk_HeadBucket = (\<lambda>b w. (None, w)),
     sdk_HeadObject = (\<lambda>b k w. (Inr (Some 5), w)),
     finalize_stack = [Middleware ''Retry'', UnsignedPayload, Middleware ''Signing''],
     unsigned_payload_id = ''ComputePayloadHash'',
     add_content_sha256 = (\<lambda>stack. Some (stack @ [Middleware ''SHA256''])),
     sdk_PresignPut = (\<lambda>p d stack w. (Inr \<lparr>ps_URL = put_Key p, ps_SignedHeader =
        [(''Host'', [''s3'']), (''X-Amz-Content-Sha256'', [''hash''])]\<rparr>, w)),
     sdk_PresignGet = (\<lambda>b k d w. (Inr \<lparr>ps_URL = k, ps_SignedHeader = [(''Host'', [''s3''])]\<rparr>, w))\<rparr>"

definition store0 :: Store where
  "store0 = \<lparr>st_bucket = ''b'', st_ttl = hour, st_client = \<lparr>opt_BaseEndpoint = ''https://s3'', opt_UsePathStyle = True\<rparr>,
     st_metrics = None\<rparr>"

lemma payload_hash_bound_witness:
  "bindPayloadHash sdk0 ''h'' [Middleware ''Retry'', UnsignedPayload, Middleware ''Signing'']
     = Inr [Middleware ''Retry'', StaticPayloadHash ''h'', Middleware ''Signing'', Middleware ''SHA256'']"
  unfolding payload_hash_bound
  by (intro exI [of _ "[Middleware ''Retry'']"] exI [of _ UnsignedPayload] exI [of _ "[Middleware ''Signing'']"])
    (simp add: sdk0_def middleware_ID_def)

lemma upload_ok0: "\<exists>a. fst (PresignUpload lib0 sdk0 42 oid0 5 (store0, ())) = Inr a"
  by (simp add: PresignUpload_def Key_oid0 presign_put_def bindPayloadHash_def sdk0_def store0_def
      middleware_ID_def Let_def)

lemma upload_action_bound_witness:
  "\<exists>a. fst (PresignUpload lib0 sdk0 42 oid0 5 (store0, ())) = Inr a \<and> act_ExpiresIn a = quot hour second"
proof -
  obtain a s' w' where run: "PresignUpload lib0 sdk0 42 oid0 5 (store0, ()) = (Inr a, (s', w'))"
    using upload_ok0 by (metis prod.exhaust fst_conv)
  from upload_action_bound [OF run] run show ?thesis by (auto simp: store0_def)
qed

end
