(* ===== verification/LFS_Protocol.thy ===== *)
theory LFS_Protocol
  imports S3_Store
begin

section \<open>Package lfs: requests, responses and their validation\<close>

text \<open>
  \<^verbatim>\<open>internal/lfs/handler.go\<close>, its data and the tests a request has to pass before anything
  is looked up: media types, the JSON body, the batch and its objects, the Basic
  credentials. A payload is the value handed to the JSON encoder, or the text of an answer
  that is not JSON.
\<close>

subsection \<open>Data\<close>

definition MediaType :: string where
  "MediaType = ''application/vnd.git-lfs+json''"

record Handler =
  h_publicURL :: string
  h_maxObjectSize :: int64
  h_concurrency :: int

record Options =
  op_PublicURL :: string
  op_MaxObjectSize :: int64
  op_Concurrency :: int

definition lfs_New :: "Options \<Rightarrow> Handler" where
  "lfs_New options = \<lparr>h_publicURL = trim_right_chars ''/'' (op_PublicURL options),
     h_maxObjectSize = op_MaxObjectSize options,
     h_concurrency = (if op_Concurrency options \<le> 0 then ObjectCheckConcurrency else op_Concurrency options)\<rparr>"

record requestObject =
  ro_OID :: string
  ro_Size :: int64

record batchRequest =
  br_Operation :: string
  br_Transfers :: "string list"
  br_Ref :: json
  br_HashAlgo :: string
  br_Objects :: "requestObject list"

record action =
  ac_Href :: string
  ac_Header :: "string \<rightharpoonup> string"
  ac_ExpiresIn :: int64
  ac_Authenticated :: bool

record objectError =
  oe_Code :: int
  oe_Message :: string

record responseObject =
  rs_OID :: string
  rs_Size :: int64
  rs_Authenticated :: bool
  rs_Actions :: "string \<rightharpoonup> action"
  rs_Error :: "objectError option"

record batchResponse =
  bs_Transfer :: string
  bs_HashAlgo :: string
  bs_Objects :: "responseObject list"

record errorResponse =
  er_Message :: string
  er_RequestID :: string

datatype payload =
    ErrorPayload errorResponse
  | BatchPayload batchResponse
  | VerifyPayload string
  | TextPayload string

definition requestObject_zero :: requestObject where
  "requestObject_zero = \<lparr>ro_OID = [], ro_Size = 0\<rparr>"

definition decode_requestObject :: "requestObject decoder" where
  "decode_requestObject = decode_object
     [field ''oid'' decode_string ro_OID (\<lambda>v s. s\<lparr>ro_OID := v\<rparr>),
      field ''size'' decode_int ro_Size (\<lambda>v s. s\<lparr>ro_Size := v\<rparr>)]"

definition batchRequest_zero :: batchRequest where
  "batchRequest_zero = \<lparr>br_Operation = [], br_Transfers = [], br_Ref = JNull, br_HashAlgo = [], br_Objects = []\<rparr>"

definition decode_batchRequest :: "batchRequest decoder" where
  "decode_batchRequest = decode_object
     [field ''operation'' decode_string br_Operation (\<lambda>v s. s\<lparr>br_Operation := v\<rparr>),
      field ''transfers'' (decode_list decode_string []) br_Transfers (\<lambda>v s. s\<lparr>br_Transfers := v\<rparr>),
      field ''ref'' decode_raw br_Ref (\<lambda>v s. s\<lparr>br_Ref := v\<rparr>),
      field ''hash_algo'' decode_string br_HashAlgo (\<lambda>v s. s\<lparr>br_HashAlgo := v\<rparr>),
      field ''objects'' (decode_list decode_requestObject requestObject_zero) br_Objects
        (\<lambda>v s. s\<lparr>br_Objects := v\<rparr>)]"

subsection \<open>Media types, body and credentials\<close>

definition acceptsLFSJSON :: "golib \<Rightarrow> http_request \<Rightarrow> bool" where
  "acceptsLFSJSON g r =
     (let accept = ToLower g (req_Header r ''Accept'') in
      accept = [] \<or> contains accept ''*/*'' \<or> contains accept MediaType
      \<or> contains accept ''application/json'')"

definition content_type :: "golib \<Rightarrow> http_request \<Rightarrow> string" where
  "content_type g r = ToLower g (trim_space (hd (split_on (CHR '';'') (req_Header r ''Content-Type''))))"

definition readJSON :: "golib \<Rightarrow> 't decoder \<Rightarrow> 't \<Rightarrow> http_request \<Rightarrow> (err, 't) result" where
  "readJSON g dec zero r =
     (if content_type g r \<noteq> MediaType \<and> content_type g r \<noteq> ''application/json'' then Inl ErrUnsupportedMediaType
      else
        (let input = MaxBytesReader MaximumBatchRequestSize (req_Body r) in
         case decode_next input of
           Inl e \<Rightarrow> Inl (Wrapped ''decode request'' (Library e))
         | Inr (j, behind) \<Rightarrow>
             (case dec j zero of
                None \<Rightarrow> Inl (Wrapped ''decode request'' (Library (Failed ''json.Unmarshal'' (str_bytes input))))
              | Some v \<Rightarrow>
                  (case decode_next behind of
                     Inl e \<Rightarrow> if e = EOF then Inr v else Inl (Wrapped ''decode request'' (Library e))
                   | Inr (j2, _) \<Rightarrow>
                       if decode_object [] j2 () = None
                       then Inl (Wrapped ''decode request'' (Library (Failed ''json.Unmarshal'' (str_bytes behind))))
                       else Inl (Message ''request body must contain one JSON value'')))))"

text \<open>The password is the token; the whole header value is kept for the verify action.\<close>

definition basicToken :: "http_request \<Rightarrow> (string \<times> string) option" where
  "basicToken r =
     (case parse_basic_auth (req_Header r ''Authorization'') of
        None \<Rightarrow> None
      | Some (_, password) \<Rightarrow>
          if password = [] then None else Some (password, req_Header r ''Authorization''))"

subsection \<open>Validation\<close>

definition bad_oid :: string where
  "bad_oid = ''object OID must contain exactly 64 lowercase hexadecimal characters''"

definition validateObject :: "golib \<Rightarrow> Handler \<Rightarrow> requestObject \<Rightarrow> err option" where
  "validateObject g h ob =
     (if length (ro_OID ob) \<noteq> 64 then Some (Message bad_oid)
      else if hex_decode (ro_OID ob) = None \<or> ro_OID ob \<noteq> ToLower g (ro_OID ob) then Some (Message bad_oid)
      else if ro_Size ob < 0 \<or> h_maxObjectSize h < ro_Size ob then
        Some (Message (''object size must be between 0 and '' @ format_int (h_maxObjectSize h)))
      else None)"

fun validate_objects :: "golib \<Rightarrow> Handler \<Rightarrow> (string \<rightharpoonup> int64) \<Rightarrow> requestObject list \<Rightarrow> err option" where
  "validate_objects g h seen [] = None"
| "validate_objects g h seen (ob # obs) =
     (case validateObject g h ob of
        Some e \<Rightarrow> Some e
      | None \<Rightarrow>
          (case seen (ro_OID ob) of
             Some previous \<Rightarrow>
               if previous \<noteq> ro_Size ob then Some (Message (''OID '' @ ro_OID ob @ '' has conflicting sizes''))
               else validate_objects g h (seen(ro_OID ob \<mapsto> ro_Size ob)) obs
           | None \<Rightarrow> validate_objects g h (seen(ro_OID ob \<mapsto> ro_Size ob)) obs))"

definition validateBatch :: "golib \<Rightarrow> Handler \<Rightarrow> batchRequest \<Rightarrow> err option" where
  "validateBatch g h input =
     (if br_Operation input \<noteq> ''upload'' \<and> br_Operation input \<noteq> ''download'' then
        Some (Message ''operation must be upload or download'')
      else if br_HashAlgo input \<noteq> [] \<and> br_HashAlgo input \<noteq> ''sha256'' then
        Some (Message ''hash_algo must be sha256'')
      else if br_Transfers input \<noteq> [] \<and> \<not> list_ex (\<lambda>t. t = ''basic'') (br_Transfers input) then
        Some (Message ''basic transfer is required'')
      else if MaximumBatchObjects < int (length (br_Objects input)) then
        Some (Message (''batch contains more than '' @ format_int MaximumBatchObjects @ '' objects''))
      else validate_objects g h Map.empty (br_Objects input))"

subsection \<open>What validation accepts\<close>

definition acceptable_object :: "Handler \<Rightarrow> requestObject \<Rightarrow> bool" where
  "acceptable_object h ob = (well_formed_oid (ro_OID ob) \<and> 0 \<le> ro_Size ob \<and> ro_Size ob \<le> h_maxObjectSize h)"

lemma validateObject_exact: "validateObject g h ob = None \<longleftrightarrow> acceptable_object h ob"
  using oid_tests [of "ro_OID ob" g]
  by (auto simp: validateObject_def acceptable_object_def well_formed_oid_def)

lemma ball_pairs_insert:
  assumes "\<And>x y. Q x y \<Longrightarrow> Q y x"
  shows "(\<forall>x\<in>insert a S. \<forall>y\<in>insert a S. Q x y) \<longleftrightarrow> Q a a \<and> (\<forall>x\<in>S. Q x a) \<and> (\<forall>x\<in>S. \<forall>y\<in>S. Q x y)"
  using assms by blast

lemma validate_objects_exact:
  "validate_objects g h seen obs = None \<longleftrightarrow>
     list_all (acceptable_object h) obs
     \<and> (\<forall>x\<in>set obs. \<forall>y\<in>set obs. ro_OID x = ro_OID y \<longrightarrow> ro_Size x = ro_Size y)
     \<and> (\<forall>x\<in>set obs. \<forall>n. seen (ro_OID x) = Some n \<longrightarrow> n = ro_Size x)"
proof (induction obs arbitrary: seen)
  case (Cons ob obs)
  show ?case
  proof (cases "validateObject g h ob = None \<and> (\<forall>n. seen (ro_OID ob) = Some n \<longrightarrow> n = ro_Size ob)")
    case True
    then have step: "validate_objects g h seen (ob # obs) = validate_objects g h (seen(ro_OID ob \<mapsto> ro_Size ob)) obs"
      by (auto split: option.splits)
    have new: "(\<forall>x\<in>set obs. \<forall>n. (seen(ro_OID ob \<mapsto> ro_Size ob)) (ro_OID x) = Some n \<longrightarrow> n = ro_Size x)
      \<longleftrightarrow> (\<forall>x\<in>set obs. ro_OID x = ro_OID ob \<longrightarrow> ro_Size x = ro_Size ob)
        \<and> (\<forall>x\<in>set obs. \<forall>n. seen (ro_OID x) = Some n \<longrightarrow> n = ro_Size x)"
      using True by auto
    have pairs: "(\<forall>x\<in>set (ob # obs). \<forall>y\<in>set (ob # obs). ro_OID x = ro_OID y \<longrightarrow> ro_Size x = ro_Size y)
      \<longleftrightarrow> (\<forall>x\<in>set obs. ro_OID x = ro_OID ob \<longrightarrow> ro_Size x = ro_Size ob)
        \<and> (\<forall>x\<in>set obs. \<forall>y\<in>set obs. ro_OID x = ro_OID y \<longrightarrow> ro_Size x = ro_Size y)"
    proof -
      have "ro_OID y = ro_OID x \<longrightarrow> ro_Size y = ro_Size x"
        if "ro_OID x = ro_OID y \<longrightarrow> ro_Size x = ro_Size y" for x y using that by simp
      from ball_pairs_insert [of "\<lambda>x y. ro_OID x = ro_OID y \<longrightarrow> ro_Size x = ro_Size y", OF this]
      show ?thesis by (simp only: list.set(2) simp_thms)
    qed
    have old: "(\<forall>x\<in>set (ob # obs). \<forall>n. seen (ro_OID x) = Some n \<longrightarrow> n = ro_Size x)
      \<longleftrightarrow> (\<forall>x\<in>set obs. \<forall>n. seen (ro_OID x) = Some n \<longrightarrow> n = ro_Size x)"
      using True by (simp only: list.set(2) ball_simps(7)) blast
    have acc: "list_all (acceptable_object h) (ob # obs) \<longleftrightarrow> list_all (acceptable_object h) obs"
      using True by (simp add: validateObject_exact)
    show ?thesis unfolding step Cons.IH new pairs old acc by blast
  next
    case False
    then have "validate_objects g h seen (ob # obs) \<noteq> None" by (auto split: option.splits)
    moreover have "\<not> (list_all (acceptable_object h) (ob # obs)
        \<and> (\<forall>x\<in>set (ob # obs). \<forall>n. seen (ro_OID x) = Some n \<longrightarrow> n = ro_Size x))"
      using False unfolding validateObject_exact by (simp only: list.set(2) ball_simps(7) list.pred_inject) blast
    ultimately show ?thesis by blast
  qed
qed simp

declare validate_objects.simps [simp del]

text \<open>
  C9. A batch passes validation exactly when its operation is upload or download, its hash
  is SHA-256, basic transfer is possible, it has at most a thousand objects, every object has
  a well-formed OID and a size in range, and no OID is requested with two sizes.
\<close>

theorem batch_validation_exact:
  "validateBatch g h input = None \<longleftrightarrow>
     br_Operation input \<in> {''upload'', ''download''} \<and> br_HashAlgo input \<in> {[], ''sha256''}
     \<and> (br_Transfers input = [] \<or> ''basic'' \<in> set (br_Transfers input))
     \<and> length (br_Objects input) \<le> 1000 \<and> list_all (acceptable_object h) (br_Objects input)
     \<and> (\<forall>x\<in>set (br_Objects input). \<forall>y\<in>set (br_Objects input).
          ro_OID x = ro_OID y \<longrightarrow> ro_Size x = ro_Size y)"
  by (auto simp: validateBatch_def validate_objects_exact MaximumBatchObjects_def list_ex_iff)

definition handler0 :: Handler where
  "handler0 = lfs_New \<lparr>op_PublicURL = ''https://lfs/'', op_MaxObjectSize = 5000000000, op_Concurrency = 0\<rparr>"

lemma handler0_simps [simp]:
  "h_publicURL handler0 = ''https://lfs''" "h_maxObjectSize handler0 = 5000000000" "h_concurrency handler0 = 16"
  by (simp_all add: handler0_def lfs_New_def ObjectCheckConcurrency_def trim_right_chars_def)

definition input0 :: batchRequest where
  "input0 = \<lparr>br_Operation = ''download'', br_Transfers = [''lfs-standalone-file'', ''basic''], br_Ref = JNull,
     br_HashAlgo = [], br_Objects = [\<lparr>ro_OID = oid0, ro_Size = 5\<rparr>]\<rparr>"

lemma input0_valid: "validateBatch lib0 handler0 input0 = None"
  by (simp add: validateBatch_def validate_objects_exact input0_def acceptable_object_def oid0_ok
      MaximumBatchObjects_def)

lemma batch_validation_exact_witness: "validateBatch lib0 handler0 input0 = None"
  unfolding batch_validation_exact by (simp add: input0_def acceptable_object_def oid0_ok)

text \<open>
  Validation and storage agree on OIDs: an object that passes validation has a key in
  every repository, so the store never rejects it as malformed.
\<close>

theorem validated_objects_have_keys:
  assumes "validateBatch g h input = None" and "ob \<in> set (br_Objects input)"
  shows "Key g repo (ro_OID ob) = Inr (object_key repo (ro_OID ob))"
  using assms
  by (auto simp: validateBatch_def validate_objects_exact list_all_iff acceptable_object_def Key_cases
      split: if_splits)

lemma validated_objects_have_keys_witness: "Key lib0 42 oid0 = Inr (object_key 42 oid0)"
  using validated_objects_have_keys [OF input0_valid, of "\<lparr>ro_OID = oid0, ro_Size = 5\<rparr>" 42]
  by (simp add: input0_def)

text \<open>
  Basic credentials round-trip: a client that sends any user name without a colon and a
  nonempty token is understood to hold just that token, and its header is kept unchanged for
  the verify action.
\<close>

theorem basic_token_roundtrip:
  assumes "req_Header r ''Authorization'' = basic_auth_header user token"
    and "CHR '':'' \<notin> set user"
  shows "basicToken r = (if token = [] then None else Some (token, basic_auth_header user token))"
  using parse_basic_auth_header [OF assms(2)] by (simp add: basicToken_def assms(1))

definition request0 :: http_request where
  "request0 = \<lparr>req_Method = ''POST'', req_Path = [], req_owner = ''o'', req_repository = ''r'',
     req_Header = (\<lambda>h. if h = ''Authorization'' then basic_auth_header ''x'' ''ghu_x''
        else if h = ''Content-Type'' then ''application/json; charset=utf-8'' else []),
     req_Body = text_stream (json_text (JObj [(''operation'', JStr ''download''),
        (''objects'', JArr [JObj [(''oid'', JStr oid0), (''size'', JNum ''5'')]])]))\<rparr>"

lemma basic_token_roundtrip_witness:
  "basicToken request0 = Some (''ghu_x'', basic_auth_header ''x'' ''ghu_x'')"
  using basic_token_roundtrip [of request0 "''x''" "''ghu_x''"] by (simp add: request0_def)

end
