(* ===== verification/LFS_Objects.thy ===== *)
theory LFS_Objects
  imports LFS_Protocol
begin

section \<open>Package lfs: one object of a batch\<close>

text \<open>
  \<^verbatim>\<open>processObject\<close> of \<^verbatim>\<open>internal/lfs/handler.go\<close>. The store is what the calls of this one
  object see of it: each operation is called at most once, so a function per operation says
  it all, whatever else happens meanwhile. The result carries the label under which the
  object is counted.
\<close>

definition matches :: "object \<Rightarrow> requestObject \<Rightarrow> bool" where
  "matches stored requested = (obj_Size stored = ro_Size requested)"

definition fromStorageAction :: "storage_action \<Rightarrow> bool \<Rightarrow> action" where
  "fromStorageAction a authenticated = \<lparr>ac_Href = act_Href a, ac_Header = act_Header a,
     ac_ExpiresIn = act_ExpiresIn a, ac_Authenticated = authenticated\<rparr>"

definition objectFailure ::
    "responseObject \<Rightarrow> string \<Rightarrow> int \<Rightarrow> string \<Rightarrow> string \<Rightarrow> responseObject \<times> string list" where
  "objectFailure resp operation code message label =
     (resp\<lparr>rs_Error := Some \<lparr>oe_Code = code, oe_Message = message\<rparr>\<rparr>, [operation, label])"

definition storage_down :: string where
  "storage_down = ''object storage is temporarily unavailable''"

definition verify_action :: "Handler \<Rightarrow> string \<Rightarrow> string \<Rightarrow> string \<Rightarrow> action" where
  "verify_action h owner repo authorization = \<lparr>
     ac_Href = h_publicURL h @ ''/github.com/'' @ path_escape owner @ ''/'' @ path_escape repo
       @ ''/info/lfs/objects/verify'',
     ac_Header = [''Authorization'' \<mapsto> authorization], ac_ExpiresIn = 0, ac_Authenticated = True\<rparr>"

definition base_response :: "requestObject \<Rightarrow> responseObject" where
  "base_response input = \<lparr>rs_OID = ro_OID input, rs_Size = ro_Size input, rs_Authenticated = True,
     rs_Actions = Map.empty, rs_Error = None\<rparr>"

definition process_download ::
    "ObjectStore \<Rightarrow> int64 \<Rightarrow> requestObject \<Rightarrow> string \<Rightarrow> (err, object) result \<Rightarrow> responseObject \<times> string list" where
  "process_download store repositoryID input operation head =
     (let resp = base_response input in
      case head of
        Inl e \<Rightarrow>
          if errors_is e ErrStorageNotFound then objectFailure resp operation 404 ''object not found'' ''not_found''
          else objectFailure resp operation 503 storage_down ''unavailable''
      | Inr stored \<Rightarrow>
          if \<not> matches stored input then
            objectFailure resp operation 422 ''stored object size does not match requested size'' ''mismatch''
          else (case store_PresignDownload store repositoryID (ro_OID input) of
            Inl e \<Rightarrow> objectFailure resp operation 503 storage_down ''unavailable''
          | Inr download \<Rightarrow>
              (resp\<lparr>rs_Actions := [''download'' \<mapsto> fromStorageAction download True]\<rparr>, [operation, ''download''])))"

definition process_upload ::
    "Handler \<Rightarrow> ObjectStore \<Rightarrow> int64 \<Rightarrow> string \<Rightarrow> string \<Rightarrow> string \<Rightarrow> requestObject \<Rightarrow> string
     \<Rightarrow> (err, object) result \<Rightarrow> responseObject \<times> string list" where
  "process_upload h store repositoryID owner repo authorization input operation head =
     (let resp = base_response input in
      case head of
        Inr stored \<Rightarrow>
          if matches stored input then (resp, [operation, ''exists''])
          else objectFailure resp operation 422 ''an object with this OID has a different stored size'' ''mismatch''
      | Inl e \<Rightarrow>
          if \<not> errors_is e ErrStorageNotFound then objectFailure resp operation 503 storage_down ''unavailable''
          else (case store_PresignUpload store repositoryID (ro_OID input) (ro_Size input) of
            Inl e \<Rightarrow> objectFailure resp operation 503 storage_down ''unavailable''
          | Inr upload \<Rightarrow>
              (resp\<lparr>rs_Actions := [''upload'' \<mapsto> fromStorageAction upload False,
                                   ''verify'' \<mapsto> verify_action h owner repo authorization]\<rparr>,
               [operation, ''upload''])))"

definition processObject ::
    "Handler \<Rightarrow> ObjectStore \<Rightarrow> string \<Rightarrow> int64 \<Rightarrow> string \<Rightarrow> string \<Rightarrow> string \<Rightarrow> requestObject
     \<Rightarrow> responseObject \<times> string list" where
  "processObject h store operation repositoryID owner repo authorization input =
     (let head = store_Head store repositoryID (ro_OID input) in
      if operation = ''download'' then process_download store repositoryID input operation head
      else process_upload h store repositoryID owner repo authorization input operation head)"

lemmas process_defs = processObject_def process_download_def process_upload_def objectFailure_def
  base_response_def Let_def

subsection \<open>What an object's answer says\<close>

text \<open>
  A download is granted exactly when the store has the object with the requested size
  and signs the request; the answer then carries just that action.
\<close>

theorem download_granted_iff:
  "rs_Actions (fst (processObject h store ''download'' repo owner nm auth input)) ''download'' = Some a \<longleftrightarrow>
     (\<exists>stored granted. store_Head store repo (ro_OID input) = Inr stored \<and> obj_Size stored = ro_Size input
        \<and> store_PresignDownload store repo (ro_OID input) = Inr granted
        \<and> a = fromStorageAction granted True)"
  by (auto simp: process_defs matches_def split: sum.splits)

text \<open>
  C6. An upload is offered exactly when the store reports the object missing and signs the
  request, so an object that is there, of whatever size, is never offered for replacement, and
  an outage never looks like a missing object. The verify action comes along with it: it
  repeats the caller's own credentials and leads back to this server.
\<close>

theorem upload_offered_iff:
  assumes "operation \<noteq> ''download''"
  shows "(rs_Actions (fst (processObject h store operation repo owner nm auth input)) ''upload'' = Some a \<longleftrightarrow>
     (\<exists>e granted. store_Head store repo (ro_OID input) = Inl e \<and> errors_is e ErrStorageNotFound
        \<and> store_PresignUpload store repo (ro_OID input) (ro_Size input) = Inr granted
        \<and> a = fromStorageAction granted False))
   \<and> rs_Actions (fst (processObject h store operation repo owner nm auth input)) ''verify''
      = (if rs_Actions (fst (processObject h store operation repo owner nm auth input)) ''upload'' = None then None
         else Some (verify_action h owner nm auth))"
  using assms by (auto simp: process_defs matches_def split: sum.splits)

definition view0 :: ObjectStore where
  "view0 = s3_view lib0 sdk0 (store0, ()) (store0, ()) (store0, ())"

lemma view0_download: "\<exists>a. store_PresignDownload view0 42 oid0 = Inr a"
  by (simp add: view0_def s3_view_def PresignDownload_def Key_oid0 sdk0_def Let_def)

lemma view0_head: "store_Head view0 42 oid0 = Inr \<lparr>obj_Size = 5\<rparr>"
  by (simp add: view0_def s3_view_def Head_def Key_oid0 sdk0_def Let_def)

definition missing0 :: ObjectStore where
  "missing0 = view0\<lparr>store_Head := (\<lambda>_ _. Inl ErrStorageNotFound)\<rparr>"

lemma upload_offered_iff_witness:
  "rs_Actions (fst (processObject handler0 missing0 ''upload'' 42 ''o'' ''r'' ''Basic x'' \<lparr>ro_OID = oid0, ro_Size = 5\<rparr>)) ''upload''
     \<noteq> None"
proof -
  obtain a where "store_PresignUpload view0 42 oid0 5 = Inr a"
    using upload_ok0 unfolding view0_def s3_view_def by auto
  then have "store_PresignUpload missing0 42 oid0 5 = Inr a" "store_Head missing0 42 oid0 = Inl ErrStorageNotFound"
    by (simp_all add: missing0_def)
  then show ?thesis
    using upload_offered_iff [of "''upload''" handler0 missing0 42 "''o''" "''r''" "''Basic x''"
        "\<lparr>ro_OID = oid0, ro_Size = 5\<rparr>" "fromStorageAction a False"] by simp
qed

text \<open>
  Every object gets a consistent answer: its own OID and size, and either an error and
  no action, or no error. The error codes are those of the protocol, the count label is the
  operation with one of six results, and an answer without error and action means an upload of
  an object that is already stored with the same size.
\<close>

theorem object_answer_consistent:
  assumes "processObject h store operation repo owner nm auth input = (resp, label)"
  shows "rs_OID resp = ro_OID input \<and> rs_Size resp = ro_Size input \<and> rs_Authenticated resp
    \<and> (rs_Error resp = None \<or> rs_Actions resp = Map.empty)
    \<and> (\<forall>e. rs_Error resp = Some e \<longrightarrow> oe_Code e \<in> {404, 422, 503})
    \<and> (rs_Error resp = None \<and> rs_Actions resp = Map.empty \<longleftrightarrow> label = [operation, ''exists''])
    \<and> (label = [operation, ''exists''] \<longrightarrow> operation \<noteq> ''download''
         \<and> (\<exists>stored. store_Head store repo (ro_OID input) = Inr stored \<and> obj_Size stored = ro_Size input))
    \<and> hd label = operation
    \<and> last label \<in> {''download'', ''upload'', ''exists'', ''not_found'', ''mismatch'', ''unavailable''}"
  using assms
  by (auto simp: process_defs matches_def split: sum.splits if_splits)

lemma object_answer_consistent_witness:
  "rs_OID (fst (processObject handler0 missing0 ''download'' 42 ''o'' ''r'' ''Basic x'' \<lparr>ro_OID = oid0, ro_Size = 5\<rparr>)) = oid0"
proof -
  obtain resp label where "processObject handler0 missing0 ''download'' 42 ''o'' ''r'' ''Basic x''
      \<lparr>ro_OID = oid0, ro_Size = 5\<rparr> = (resp, label)" by (metis prod.exhaust)
  from object_answer_consistent [OF this] this show ?thesis by simp
qed

text \<open>Clients of any store that keeps its contract.\<close>

context object_store
begin

lemma download_scoped_to_repository:
  "rs_Actions (fst (processObject h store ''download'' repo owner nm auth input)) ''download'' = Some a \<Longrightarrow>
     \<exists>granted. download_grant repo (ro_OID input) granted \<and> a = fromStorageAction granted True
       \<and> wellformed (ro_OID input)"
  by (auto simp: process_defs matches_def split: sum.splits if_splits
      dest: download_scoped head_wellformed)

lemma upload_scoped_to_repository:
  "rs_Actions (fst (processObject h store operation repo owner nm auth input)) ''upload'' = Some a \<Longrightarrow>
     \<exists>granted. upload_grant repo (ro_OID input) (ro_Size input) granted \<and> a = fromStorageAction granted False
       \<and> wellformed (ro_OID input)"
  by (auto simp: process_defs matches_def split: sum.splits if_splits
      dest: upload_scoped upload_wellformed)

end

lemma grant_scope:
  assumes "s = s3_view g env s1 s2 s3"
    and "rs_Actions (fst (processObject h s operation repo owner nm auth input)) name = Some a"
    and "name \<noteq> ''verify''"
  shows "well_formed_oid (ro_OID input)
    \<and> (name = ''download'' \<and> operation = ''download''
         \<and> (\<exists>granted. s3_download_grant g env (fst s3) repo (ro_OID input) granted
              \<and> a = fromStorageAction granted True)
      \<or> name = ''upload'' \<and> operation \<noteq> ''download''
         \<and> (\<exists>granted. s3_upload_grant g env (fst s2) repo (ro_OID input) (ro_Size input) granted
              \<and> a = fromStorageAction granted False))"
proof (cases "operation = ''download''")
  case True
  then have "name = ''download''" using assms(2)
    by (auto simp: process_defs split: sum.splits if_splits)
  then show ?thesis using True assms(2) s3.download_scoped_to_repository unfolding assms(1) by blast
next
  case False
  then have "name = ''upload''" using assms(2,3)
    by (auto simp: process_defs split: sum.splits if_splits)
  then show ?thesis using False assms(2) s3.upload_scoped_to_repository unfolding assms(1) by blast
qed

text \<open>
  C7. With the S3 store every transfer action a client receives is a signature over the key
  of the repository the authorization named and the OID of the request, and for an upload over
  the announced size and the condition that nothing is stored there: no answer grants access to
  another repository or object.
\<close>

theorem grants_stay_in_repository:
  assumes "s = s3_view g env s1 s2 s3"
    and "rs_Actions (fst (processObject h s operation repo owner nm auth input)) name = Some a"
    and "name \<noteq> ''verify''"
  shows "well_formed_oid (ro_OID input)
    \<and> (name = ''download'' \<and> operation = ''download''
         \<and> (\<exists>granted. s3_download_grant g env (fst s3) repo (ro_OID input) granted
              \<and> a = fromStorageAction granted True)
      \<or> name = ''upload'' \<and> operation \<noteq> ''download''
         \<and> (\<exists>granted. s3_upload_grant g env (fst s2) repo (ro_OID input) (ro_Size input) granted
              \<and> a = fromStorageAction granted False))"
  using assms by (rule grant_scope)

lemma grants_stay_in_repository_witness:
  "\<exists>a granted. rs_Actions (fst (processObject handler0 view0 ''download'' 42 ''o'' ''r'' ''Basic x''
       \<lparr>ro_OID = oid0, ro_Size = 5\<rparr>)) ''download'' = Some a
     \<and> s3_download_grant lib0 sdk0 store0 42 oid0 granted \<and> a = fromStorageAction granted True"
proof -
  obtain d where "store_PresignDownload view0 42 oid0 = Inr d" using view0_download by blast
  then have some: "rs_Actions (fst (processObject handler0 view0 ''download'' 42 ''o'' ''r'' ''Basic x''
      \<lparr>ro_OID = oid0, ro_Size = 5\<rparr>)) ''download'' = Some (fromStorageAction d True)"
    using view0_head by (simp add: process_defs matches_def)
  from grants_stay_in_repository [OF view0_def some] show ?thesis using some by auto
qed

end
