(* ===== verification/LFS_Pool.thy ===== *)
theory LFS_Pool
  imports LFS_Objects "HOL-Library.Multiset"
begin

section \<open>Package lfs: the worker pool of a batch\<close>

text \<open>
  \<^verbatim>\<open>processObjects\<close> of \<^verbatim>\<open>internal/lfs/handler.go\<close>: a producer that sends the indices of the
  objects over an unbuffered channel and closes it, workers that receive, process and store
  into the slot of the index, and a wait for all of them. The pool is a step relation: a send
  meets a waiting worker, and everything else interleaves freely. \<open>work i\<close> is the answer and
  the count label of object \<open>i\<close>.
\<close>

subsection \<open>States and steps\<close>

definition observeObject :: "string list \<Rightarrow> Metrics option \<Rightarrow> Metrics option" where
  "observeObject labels = map_option (\<lambda>m. m\<lparr>BatchObjects := inc labels (BatchObjects m)\<rparr>)"

datatype worker = Waiting | Running nat | Exited

record 'r pool =
  pl_sent :: nat
  pl_closed :: bool
  pl_workers :: "worker list"
  pl_output :: "'r list"
  pl_metrics :: "Metrics option"
  pl_returned :: bool

definition pool_start :: "nat \<Rightarrow> 'r list \<Rightarrow> Metrics option \<Rightarrow> 'r pool" where
  "pool_start workers out m = \<lparr>pl_sent = 0, pl_closed = False, pl_workers = replicate workers Waiting,
     pl_output = out, pl_metrics = m, pl_returned = False\<rparr>"

inductive pool_step :: "(nat \<Rightarrow> 'r \<times> string list) \<Rightarrow> nat \<Rightarrow> 'r pool \<Rightarrow> 'r pool \<Rightarrow> bool" for work n where
  send: "pl_sent s < n \<Longrightarrow> k < length (pl_workers s) \<Longrightarrow> pl_workers s ! k = Waiting \<Longrightarrow>
     pool_step work n s (s\<lparr>pl_sent := Suc (pl_sent s), pl_workers := (pl_workers s)[k := Running (pl_sent s)]\<rparr>)"
| finish: "k < length (pl_workers s) \<Longrightarrow> pl_workers s ! k = Running i \<Longrightarrow>
     pool_step work n s (s\<lparr>pl_output := (pl_output s)[i := fst (work i)],
       pl_metrics := observeObject (snd (work i)) (pl_metrics s), pl_workers := (pl_workers s)[k := Waiting]\<rparr>)"
| close: "pl_sent s = n \<Longrightarrow> \<not> pl_closed s \<Longrightarrow> pool_step work n s (s\<lparr>pl_closed := True\<rparr>)"
| leave: "pl_closed s \<Longrightarrow> k < length (pl_workers s) \<Longrightarrow> pl_workers s ! k = Waiting \<Longrightarrow>
     pool_step work n s (s\<lparr>pl_workers := (pl_workers s)[k := Exited]\<rparr>)"
| return: "pl_closed s \<Longrightarrow> list_all (\<lambda>x. x = Exited) (pl_workers s) \<Longrightarrow> \<not> pl_returned s \<Longrightarrow>
     pool_step work n s (s\<lparr>pl_returned := True\<rparr>)"

inductive pool_run :: "(nat \<Rightarrow> 'r \<times> string list) \<Rightarrow> nat \<Rightarrow> 'r pool \<Rightarrow> nat \<Rightarrow> 'r pool \<Rightarrow> bool" for work n where
  stay: "pool_run work n s 0 s"
| step: "pool_run work n s m t \<Longrightarrow> pool_step work n t u \<Longrightarrow> pool_run work n s (Suc m) u"

subsection \<open>The invariant\<close>

definition running :: "'r pool \<Rightarrow> nat multiset" where
  "running s = mset (concat (map (\<lambda>x. case x of Running i \<Rightarrow> [i] | _ \<Rightarrow> []) (pl_workers s)))"

abbreviation job_of :: "worker \<Rightarrow> nat multiset" where
  "job_of x \<equiv> (case x of Running i \<Rightarrow> {#i#} | _ \<Rightarrow> {#})"

lemma running_sum: "running s = sum_list (map job_of (pl_workers s))"
proof -
  have "mset (concat (map (\<lambda>x. case x of Running i \<Rightarrow> [i] | _ \<Rightarrow> []) ws)) = sum_list (map job_of ws)" for ws
    by (induction ws) (auto split: worker.splits)
  then show ?thesis by (simp add: running_def)
qed

lemma sum_list_update_mset:
  fixes xs :: "'b multiset list"
  assumes "k < length xs"
  shows "sum_list (xs[k := x]) + xs ! k = sum_list xs + x"
proof -
  have "xs = take k xs @ xs ! k # drop (Suc k) xs" using assms by (rule id_take_nth_drop)
  then have "sum_list xs = sum_list (take k xs) + (xs ! k + sum_list (drop (Suc k) xs))"
    by (metis sum_list.Cons sum_list_append)
  moreover have "sum_list (xs[k := x]) = sum_list (take k xs) + (x + sum_list (drop (Suc k) xs))"
    using assms by (simp add: upd_conv_take_nth_drop)
  ultimately show ?thesis by (simp add: ac_simps)
qed

lemma running_update:
  assumes "k < length (pl_workers s)"
  shows "sum_list (map job_of ((pl_workers s)[k := x])) + job_of (pl_workers s ! k) = running s + job_of x"
  using sum_list_update_mset [of k "map job_of (pl_workers s)" "job_of x"] assms
  by (simp add: running_sum map_update)

text \<open>
  \<open>done\<close> lists the finished jobs in the order they finished. A sent job is running on one
  worker or done, and never both.
\<close>

definition pool_inv ::
    "(nat \<Rightarrow> 'r \<times> string list) \<Rightarrow> nat \<Rightarrow> nat \<Rightarrow> 'r list \<Rightarrow> Metrics option \<Rightarrow> 'r pool \<Rightarrow> nat list \<Rightarrow> bool" where
  "pool_inv work n workers out m s finished =
     (pl_sent s \<le> n \<and> (pl_closed s \<longrightarrow> pl_sent s = n) \<and> length (pl_workers s) = workers
      \<and> mset finished + running s = mset [0..<pl_sent s]
      \<and> length (pl_output s) = length out
      \<and> (\<forall>i < length out. pl_output s ! i = (if i \<in> set finished then fst (work i) else out ! i))
      \<and> pl_metrics s = fold (\<lambda>i. observeObject (snd (work i))) finished m
      \<and> (\<not> pl_closed s \<longrightarrow> Exited \<notin> set (pl_workers s))
      \<and> (pl_returned s \<longrightarrow> pl_closed s \<and> list_all (\<lambda>x. x = Exited) (pl_workers s)))"

declare mset_upt [simp del]

lemma sum_list_replicate_empty [simp]: "sum_list (replicate k {#}) = {#}"
  by (induction k) simp_all

lemma pool_inv_start: "pool_inv work n workers out m (pool_start workers out m) []"
  by (auto simp: pool_inv_def pool_start_def running_sum)

lemma running_member:
  assumes "k < length (pl_workers s)" "pl_workers s ! k = Running i"
  shows "i \<in># running s"
proof -
  have r: "sum_list (map job_of ((pl_workers s)[k := Waiting])) + {#i#} = running s"
    using running_update [OF assms(1), of Waiting] assms(2) by simp
  show ?thesis unfolding r [symmetric] by simp
qed

lemma all_exited_stuck:
  "list_all (\<lambda>x. x = Exited) ws \<Longrightarrow> k < length ws \<Longrightarrow> ws ! k = Exited"
  by (simp add: list_all_length)

lemma exited_update: "Exited \<notin> set ws \<Longrightarrow> x \<noteq> Exited \<Longrightarrow> Exited \<notin> set (ws[k := x])"
  using set_update_subset_insert [of ws k x] by auto

text \<open>A worker that has not left keeps the pool from having returned.\<close>

lemma not_returned:
  assumes "pool_inv work n workers out m s finished" "k < length (pl_workers s)" "pl_workers s ! k \<noteq> Exited"
  shows "\<not> pl_returned s"
  using assms all_exited_stuck [OF _ assms(2)] by (auto simp: pool_inv_def)

lemma send_inv:
  assumes inv: "pool_inv work n workers out m s finished"
    and k: "pl_sent s < n" "k < length (pl_workers s)" "pl_workers s ! k = Waiting"
  shows "pool_inv work n workers out m
    (s\<lparr>pl_sent := Suc (pl_sent s), pl_workers := (pl_workers s)[k := Running (pl_sent s)]\<rparr>) finished"
proof -
  have "\<not> pl_closed s" using inv k(1) by (auto simp: pool_inv_def)
  moreover have "\<not> pl_returned s" using not_returned [OF inv k(2)] k(3) by simp
  moreover have "sum_list (map job_of ((pl_workers s)[k := Running (pl_sent s)])) = running s + {#pl_sent s#}"
    using running_update [OF k(2), of "Running (pl_sent s)"] k(3) by simp
  ultimately show ?thesis
    using inv k exited_update [of "pl_workers s" "Running (pl_sent s)" k]
    by (simp add: pool_inv_def running_sum ac_simps)
qed

lemma finish_inv:
  assumes inv: "pool_inv work n workers out m s finished" and n: "length out = n"
    and k: "k < length (pl_workers s)" "pl_workers s ! k = Running i"
  shows "pool_inv work n workers out m
    (s\<lparr>pl_output := (pl_output s)[i := fst (work i)],
       pl_metrics := observeObject (snd (work i)) (pl_metrics s), pl_workers := (pl_workers s)[k := Waiting]\<rparr>)
    (finished @ [i])"
proof -
  have r: "sum_list (map job_of ((pl_workers s)[k := Waiting])) + {#i#} = running s"
    using running_update [OF k(1), of Waiting] k(2) by simp
  have jobs: "mset finished + running s = mset [0..<pl_sent s]" using inv unfolding pool_inv_def by blast
  have "i \<in># mset [0..<pl_sent s]" unfolding jobs [symmetric] using running_member [OF k] by simp
  then have "i < n" using inv by (auto simp: pool_inv_def)
  moreover have "\<not> pl_returned s" using not_returned [OF inv k(1)] k(2) by simp
  moreover have "mset finished + {#i#} + sum_list (map job_of ((pl_workers s)[k := Waiting])) = mset [0..<pl_sent s]"
    unfolding jobs [symmetric] r [symmetric] by (simp add: ac_simps)
  ultimately show ?thesis
    using inv n exited_update [of "pl_workers s" Waiting k]
    by (auto simp: pool_inv_def running_sum [of "s\<lparr>pl_output := _, pl_metrics := _, pl_workers := _\<rparr>"] nth_list_update)
qed

lemma leave_inv:
  assumes inv: "pool_inv work n workers out m s finished" and closed: "pl_closed s"
    and k: "k < length (pl_workers s)" "pl_workers s ! k = Waiting"
  shows "pool_inv work n workers out m (s\<lparr>pl_workers := (pl_workers s)[k := Exited]\<rparr>) finished"
proof -
  have "sum_list (map job_of ((pl_workers s)[k := Exited])) = running s"
    using running_update [OF k(1), of Exited] k(2) by simp
  moreover have "\<not> pl_returned s" using not_returned [OF inv k(1)] k(2) by simp
  ultimately show ?thesis using inv closed by (simp add: pool_inv_def running_sum)
qed

lemma pool_step_inv [preserves]:
  assumes "pool_inv work n workers out m s finished" and "pool_step work n s t" and "length out = n"
  shows "\<exists>f. pool_inv work n workers out m t f"
  using assms(2)
proof cases
  case (send k)
  then show ?thesis using send_inv [OF assms(1)] by blast
next
  case (finish k i)
  then show ?thesis using finish_inv [OF assms(1,3)] by blast
next
  case close
  then show ?thesis using assms(1) by (intro exI [of _ finished]) (auto simp: pool_inv_def running_sum)
next
  case (leave k)
  then show ?thesis using leave_inv [OF assms(1)] by blast
next
  case return
  then show ?thesis using assms(1) by (intro exI [of _ finished]) (auto simp: pool_inv_def running_sum)
qed

lemma pool_run_inv [preserves]:
  "pool_run work n s m t \<Longrightarrow> length out = n \<Longrightarrow> pool_inv work n workers out mt s f \<Longrightarrow>
     \<exists>f. pool_inv work n workers out mt t f"
  by (induction rule: pool_run.induct) (blast intro: pool_step_inv)+

subsection \<open>Progress and length of a run\<close>

fun busy :: "worker \<Rightarrow> nat" where
  "busy Waiting = 1"
| "busy (Running i) = 2"
| "busy Exited = 0"

definition pool_measure :: "nat \<Rightarrow> 'r pool \<Rightarrow> nat" where
  "pool_measure n s = 2 * (n - pl_sent s) + sum_list (map busy (pl_workers s))
     + (if pl_closed s then 0 else 1) + (if pl_returned s then 0 else 1)"

lemma busy_update:
  assumes "k < length ws"
  shows "sum_list (map busy (ws[k := x])) + busy (ws ! k) = sum_list (map busy ws) + busy x"
  using assms
proof (induction ws arbitrary: k)
  case (Cons w ws)
  then show ?case by (cases k) auto
qed simp

lemma pool_step_measure:
  assumes "pool_inv work n workers out m s finished" and "pool_step work n s t"
  shows "pool_measure n s = Suc (pool_measure n t)"
  using assms(2)
proof cases
  case (send k)
  then show ?thesis using busy_update [OF send(3), of "Running (pl_sent s)"]
    by (simp add: pool_measure_def)
next
  case (finish k i)
  then show ?thesis using busy_update [OF finish(2), of Waiting] by (simp add: pool_measure_def)
next
  case (leave k)
  then show ?thesis using busy_update [OF leave(3), of Exited] by (simp add: pool_measure_def)
qed (simp_all add: pool_measure_def)

lemma pool_run_measure:
  assumes "pool_run work n s j t" and "length out = n" and "pool_inv work n workers out m s f"
  shows "pool_measure n s = j + pool_measure n t"
  using assms
proof (induction rule: pool_run.induct)
  case (step s j t u)
  then obtain f' where "pool_inv work n workers out m t f'" using pool_run_inv by blast
  with step show ?case using pool_step_measure by fastforce
qed simp

lemma pool_progress:
  assumes inv: "pool_inv work n workers out m s finished" and "0 < workers" and "\<not> pl_returned s"
  shows "\<exists>t. pool_step work n s t"
proof (cases "\<exists>k i. k < length (pl_workers s) \<and> pl_workers s ! k = Running i")
  case True
  then show ?thesis by (blast intro: pool_step.finish)
next
  case idle: False
  have len: "length (pl_workers s) = workers" and sent: "pl_sent s \<le> n" "pl_closed s \<longrightarrow> pl_sent s = n"
    using inv by (auto simp: pool_inv_def)
  show ?thesis
  proof (cases "pl_closed s")
    case False
    then have "Exited \<notin> set (pl_workers s)" using inv by (simp add: pool_inv_def)
    then have "pl_workers s ! 0 \<noteq> Exited" using len assms(2) nth_mem [of 0 "pl_workers s"] by metis
    then have "pl_workers s ! 0 = Waiting" using idle len assms(2) by (cases "pl_workers s ! 0") auto
    then show ?thesis using False sent len assms(2)
      by (cases "pl_sent s < n") (blast intro: pool_step.send, auto intro: pool_step.close)
  next
    case True
    show ?thesis
    proof (cases "\<exists>k. k < length (pl_workers s) \<and> pl_workers s ! k = Waiting")
      case False
      then have "list_all (\<lambda>x. x = Exited) (pl_workers s)"
        using idle unfolding list_all_length by (metis worker.exhaust)
      then show ?thesis using True assms(3) by (blast intro: pool_step.return)
    qed (use True in \<open>blast intro: pool_step.leave\<close>)
  qed
qed

lemma observe_commute:
  "observeObject a (observeObject b m) = observeObject b (observeObject a m)"
  by (cases m) (simp_all add: observeObject_def inc_commute)

lemma pool_result:
  assumes inv: "pool_inv work n workers out m s finished" and ret: "pl_returned s" and n: "length out = n"
  shows "pl_output s = map (\<lambda>i. fst (work i)) [0..<n]
    \<and> pl_metrics s = fold (\<lambda>i. observeObject (snd (work i))) [0..<n] m"
proof -
  have "list_all (\<lambda>x. x = Exited) (pl_workers s)" "pl_sent s = n" using inv ret by (auto simp: pool_inv_def)
  moreover have "sum_list (map job_of ws) = {#}" if "list_all (\<lambda>x. x = Exited) ws" for ws
    using that by (induction ws) simp_all
  ultimately have jobs: "mset finished = mset [0..<n]"
    using inv by (simp add: pool_inv_def running_sum)
  then have "set finished = {0..<n}" by (metis set_mset_mset set_upt)
  then have "pl_output s = map (\<lambda>i. fst (work i)) [0..<n]"
    using inv n by (auto simp: pool_inv_def intro!: nth_equalityI)
  moreover have "fold (\<lambda>i. observeObject (snd (work i))) finished = fold (\<lambda>i. observeObject (snd (work i))) [0..<n]"
    by (rule fold_multiset_equiv) (auto simp: fun_eq_iff observe_commute jobs)
  ultimately show ?thesis using inv by (simp add: pool_inv_def)
qed

subsection \<open>The pool of a batch\<close>

definition workerCount :: "Handler \<Rightarrow> requestObject list \<Rightarrow> nat" where
  "workerCount h input = nat (min (h_concurrency h) (max 1 (int (length input))))"

definition object_work ::
    "Handler \<Rightarrow> (nat \<Rightarrow> ObjectStore) \<Rightarrow> string \<Rightarrow> int64 \<Rightarrow> string \<Rightarrow> string \<Rightarrow> string \<Rightarrow> requestObject list
     \<Rightarrow> nat \<Rightarrow> responseObject \<times> string list" where
  "object_work h views operation repositoryID owner repo authorization input i =
     processObject h (views i) operation repositoryID owner repo authorization (input ! i)"

definition zero_response :: responseObject where
  "zero_response = \<lparr>rs_OID = [], rs_Size = 0, rs_Authenticated = False, rs_Actions = Map.empty, rs_Error = None\<rparr>"

text \<open>What the handler relies on: the answers in the order of the request, each object counted.\<close>

definition processObjects ::
    "Handler \<Rightarrow> (nat \<Rightarrow> ObjectStore) \<Rightarrow> string \<Rightarrow> int64 \<Rightarrow> string \<Rightarrow> string \<Rightarrow> string \<Rightarrow> requestObject list
     \<Rightarrow> Metrics option \<Rightarrow> responseObject list \<times> Metrics option" where
  "processObjects h views operation repositoryID owner repo authorization input m =
     (let work = object_work h views operation repositoryID owner repo authorization input in
      (map (\<lambda>i. fst (work i)) [0..<length input],
       fold (\<lambda>i. observeObject (snd (work i))) [0..<length input] m))"

text \<open>
  C21. The pool of a handler built by New can always go on until it returns, in every
  reachable state and under every schedule: there is no deadlock between the producer, the
  workers and the wait.
\<close>

theorem pool_never_stuck:
  assumes "pool_run work (length input) (pool_start (workerCount (lfs_New options) input) out m) j s"
    and "length out = length input" and "\<not> pl_returned s"
  shows "\<exists>t. pool_step work (length input) s t"
proof -
  obtain f where "pool_inv work (length input) (workerCount (lfs_New options) input) out m s f"
    using pool_run_inv [OF assms(1,2) pool_inv_start] by blast
  moreover have "0 < workerCount (lfs_New options) input"
    by (simp add: workerCount_def lfs_New_def ObjectCheckConcurrency_def)
  ultimately show ?thesis using assms(3) by (rule pool_progress)
qed

lemma pool_never_stuck_witness:
  "\<exists>t. pool_step (\<lambda>i. (zero_response, [])) 0
     (pool_start (workerCount (lfs_New \<lparr>op_PublicURL = [], op_MaxObjectSize = 1, op_Concurrency = 0\<rparr>) []) [] None) t"
proof -
  let ?s = "pool_start (workerCount (lfs_New \<lparr>op_PublicURL = [], op_MaxObjectSize = 1, op_Concurrency = 0\<rparr>) []) [] None"
  have run: "pool_run (\<lambda>i. (zero_response, [])) (length ([] :: requestObject list)) ?s 0 ?s"
    by (rule pool_run.stay)
  have "\<not> pl_returned ?s" by (simp add: pool_start_def)
  from pool_never_stuck [OF run _ this] show ?thesis by simp
qed

text \<open>
  C22. The pool terminates under every schedule: a run takes two steps for each object, one to
  close the channel, one for each worker to leave and one to return, and no run is longer.
\<close>

theorem pool_terminates:
  assumes "pool_run work (length input) (pool_start (workerCount h input) out m) j s"
    and "length out = length input"
  shows "j \<le> 2 * length input + workerCount h input + 2
    \<and> (pl_returned s \<longrightarrow> j = 2 * length input + workerCount h input + 2)"
proof -
  let ?s = "pool_start (workerCount h input) out m"
  have start: "pool_measure (length input) ?s = 2 * length input + workerCount h input + 2"
    by (simp add: pool_measure_def pool_start_def sum_list_replicate)
  have eq: "pool_measure (length input) ?s = j + pool_measure (length input) s"
    by (rule pool_run_measure [OF assms pool_inv_start])
  have "pool_measure (length input) s = 0" if "pl_returned s"
  proof -
    obtain f where inv: "pool_inv work (length input) (workerCount h input) out m s f"
      using pool_run_inv [OF assms pool_inv_start] by blast
    have "list_all (\<lambda>x. x = Exited) (pl_workers s)" using inv that by (simp add: pool_inv_def)
    then show ?thesis using inv that by (auto simp: pool_measure_def pool_inv_def list_all_iff)
  qed
  then show ?thesis using eq start by simp
qed

text \<open>
  C5. Whatever the schedule, when the wait returns every object's answer stands in its own
  slot and every object is counted once: the result is that of processing the objects one
  after the other. At no time do more than the configured number of workers exist.
\<close>

theorem pool_schedule_independent:
  assumes "pool_run (object_work h views operation repo owner nm auth input) (length input)
      (pool_start (workerCount h input) out m) j s"
    and "length out = length input" and "pl_returned s"
  shows "(pl_output s, pl_metrics s) = processObjects h views operation repo owner nm auth input m
    \<and> length (pl_workers s) = workerCount h input
    \<and> (0 < h_concurrency h \<longrightarrow> int (length (pl_workers s)) \<le> h_concurrency h)"
proof -
  obtain f where inv: "pool_inv (object_work h views operation repo owner nm auth input) (length input)
      (workerCount h input) out m s f"
    using pool_run_inv [OF assms(1,2) pool_inv_start] by blast
  from pool_result [OF this assms(3,2)] inv show ?thesis
    by (auto simp: processObjects_def Let_def pool_inv_def workerCount_def)
qed

text \<open>A complete run for the witnesses: one worker, no objects.\<close>

definition pool0 :: "responseObject pool" where
  "pool0 = pool_start 1 [] None"

definition pool0_end :: "responseObject pool" where
  "pool0_end = \<lparr>pl_sent = 0, pl_closed = True, pl_workers = [Exited], pl_output = [], pl_metrics = None,
     pl_returned = True\<rparr>"

lemma pool0_run: "pool_run work 0 pool0 3 pool0_end"
proof -
  let ?a = "pool0\<lparr>pl_closed := True\<rparr>"
  let ?b = "?a\<lparr>pl_workers := (pl_workers ?a)[0 := Exited]\<rparr>"
  have "pool_step work 0 pool0 ?a" by (rule pool_step.close) (simp_all add: pool0_def pool_start_def)
  moreover have "pool_step work 0 ?a ?b" by (rule pool_step.leave) (simp_all add: pool0_def pool_start_def)
  moreover have "pool_step work 0 ?b (?b\<lparr>pl_returned := True\<rparr>)"
    by (rule pool_step.return) (simp_all add: pool0_def pool_start_def)
  moreover have "?b\<lparr>pl_returned := True\<rparr> = pool0_end" by (simp add: pool0_def pool0_end_def pool_start_def)
  ultimately have "pool_run work 0 pool0 (Suc (Suc (Suc 0))) pool0_end"
    by (metis pool_run.stay pool_run.step)
  then show ?thesis by (simp add: numeral_3_eq_3)
qed

lemma workerCount0: "workerCount handler0 [] = 1"
  by (simp add: workerCount_def)

lemma pool_terminates_witness: "pl_returned pool0_end \<and> (3::nat) = 2 * 0 + workerCount handler0 [] + 2"
  using pool_terminates [of "\<lambda>i. (zero_response, [])" "[]" handler0 "[]" None 3 pool0_end] pool0_run
  by (simp add: workerCount0 pool0_def pool0_end_def)

lemma pool_schedule_independent_witness:
  "(pl_output pool0_end, pl_metrics pool0_end)
     = processObjects handler0 (\<lambda>_. view0) ''upload'' 42 ''o'' ''r'' ''Basic x'' [] None"
  using pool_schedule_independent [of handler0 "\<lambda>_. view0" "''upload''" 42 "''o''" "''r''" "''Basic x''" "[]" "[]" None 3 pool0_end]
    pool0_run
  by (simp add: workerCount0 pool0_def pool0_end_def)

subsection \<open>What the counter of objects tells\<close>

text \<open>The outcome of an object as a client can read it off the answer.\<close>

definition outcome :: "responseObject \<Rightarrow> string" where
  "outcome ob =
     (case rs_Error ob of
        Some e \<Rightarrow> (if oe_Code e = 404 then ''not_found'' else if oe_Code e = 422 then ''mismatch'' else ''unavailable'')
      | None \<Rightarrow>
          (if rs_Actions ob ''download'' \<noteq> None then ''download''
           else if rs_Actions ob ''upload'' \<noteq> None then ''upload'' else ''exists''))"

lemma label_is_outcome: "snd (processObject h store operation repo owner nm auth input)
    = [operation, outcome (fst (processObject h store operation repo owner nm auth input))]"
  by (auto simp: process_defs outcome_def matches_def split: sum.split)

lemma fold_observe_objects:
  "fold (\<lambda>i. observeObject (f i)) is (Some m) = Some (m\<lparr>BatchObjects := fold (\<lambda>i. inc (f i)) is (BatchObjects m)\<rparr>)"
  by (induction "is" arbitrary: m) (simp_all add: observeObject_def)

text \<open>
  The counter of batch objects agrees with the answers: a batch adds to the label of an
  operation and a result exactly the number of objects of its answer that show this outcome,
  and nothing to any other label.
\<close>

theorem batch_objects_counted:
  assumes "processObjects h views operation repo owner nm auth input (Some m) = (out, m')"
  shows "\<exists>m1. m' = Some m1 \<and> length out = length input
    \<and> BatchObjects m1 labels = BatchObjects m labels + count_list (map (\<lambda>ob. [operation, outcome ob]) out) labels"
proof -
  let ?work = "object_work h views operation repo owner nm auth input"
  have out: "out = map (\<lambda>i. fst (?work i)) [0..<length input]"
    and m': "m' = fold (\<lambda>i. observeObject (snd (?work i))) [0..<length input] (Some m)"
    using assms by (simp_all add: processObjects_def Let_def)
  have labels: "map (\<lambda>ob. [operation, outcome ob]) out = map (\<lambda>i. snd (?work i)) [0..<length input]"
    by (simp add: out object_work_def label_is_outcome)
  have "length out = length input" by (simp add: out)
  moreover have "fold (\<lambda>i. inc (snd (?work i))) is v = fold inc (map (\<lambda>i. snd (?work i)) is) v" for "is" and v
    by (induction "is" arbitrary: v) simp_all
  ultimately show ?thesis unfolding labels by (simp add: m' fold_observe_objects fold_inc_count)
qed

lemma batch_objects_counted_witness:
  "\<exists>m1. snd (processObjects handler0 (\<lambda>_. missing0) ''download'' 42 ''o'' ''r'' ''Basic x''
      [\<lparr>ro_OID = oid0, ro_Size = 5\<rparr>] (Some metrics_New)) = Some m1 \<and> BatchObjects m1 [''download'', ''not_found''] = 1"
proof -
  obtain out m' where run: "processObjects handler0 (\<lambda>_. missing0) ''download'' 42 ''o'' ''r'' ''Basic x''
      [\<lparr>ro_OID = oid0, ro_Size = 5\<rparr>] (Some metrics_New) = (out, m')" by (metis prod.exhaust)
  then have "map outcome out = [''not_found'']"
    by (auto simp: processObjects_def object_work_def process_defs missing0_def outcome_def Let_def)
  with batch_objects_counted [OF run, of "[''download'', ''not_found'']"] run show ?thesis
    by (auto simp: metrics_New_def)
qed

end
