(* ===== verification/Github.thy ===== *)
theory Github
  imports Config Observability
begin

section \<open>Package github: the GitHub App authorizer\<close>

text \<open>
  \<^verbatim>\<open>internal/forge/github/github.go\<close>. The outside is a record of functions over a world
  state \<open>'w\<close>: reading the clock, sending a request (the HTTP client), signing claims, and
  parsing keys. Every operation takes and returns the authorizer's own state, in which the
  signed App JWT is kept, together with the world. The body of a response is what the JSON
  decoder reads from it, if anything.
\<close>

subsection \<open>State and outside world\<close>

datatype private_key = RSAKey string | OtherKey

record Authorizer =
  clientID :: string
  privateKey :: string
  allowedInstallationIDs :: "int64 set"
  allowedInstallationIDList :: "int64 list"
  baseURL :: url
  gh_metrics :: "Metrics option"
  appJWT :: string
  jwtExpires :: time

record jwt_claims =
  Issuer :: string
  IssuedAt :: time
  ExpiresAt :: time

record api_request =
  api_URL :: string
  api_Method :: string
  api_Authorization :: string

record api_response =
  StatusCode :: int
  api_Header :: "string \<Rightarrow> string"
  api_Body :: stream

record 'w outside =
  clock :: "'w \<Rightarrow> time \<times> 'w"
  client_Do :: "api_request \<Rightarrow> 'w \<Rightarrow> api_response option \<times> 'w"
  sign_RS256 :: "string \<Rightarrow> jwt_claims \<Rightarrow> string option"
  pem_decode :: "string \<Rightarrow> string option"
  parse_pkcs1 :: "string \<Rightarrow> string option"
  parse_pkcs8 :: "string \<Rightarrow> private_key option"

type_synonym 'w gh_state = "Authorizer \<times> 'w"
type_synonym ('w, 'a) gh = "'w gh_state \<Rightarrow> (err, 'a) result \<times> 'w gh_state"

record GitHubConfig =
  gc_ClientID :: string
  gc_PrivateKeyPEM :: string
  gc_AllowedInstallationIDs :: "int64 list"
  gc_APIURL :: string
  gc_Metrics :: "Metrics option"

subsection \<open>Construction\<close>

definition parsePrivateKey :: "'w outside \<Rightarrow> string \<Rightarrow> (err, string) result" where
  "parsePrivateKey env data =
     (case pem_decode env data of
        None \<Rightarrow> Inl (Message ''parse GitHub App private key: no PEM block found'')
      | Some block \<Rightarrow>
          (case parse_pkcs1 env block of
             Some key \<Rightarrow> Inr key
           | None \<Rightarrow>
               (case parse_pkcs8 env block of
                  None \<Rightarrow> Inl (Wrapped ''parse GitHub App private key''
                    (Library (Failed ''x509.ParsePKCS8PrivateKey'' [])))
                | Some (RSAKey key) \<Rightarrow> Inr key
                | Some OtherKey \<Rightarrow> Inl (Message ''GitHub App private key is not RSA''))))"

fun allowed_loop :: "int64 set \<Rightarrow> int64 list \<Rightarrow> (err, int64 set) result" where
  "allowed_loop allowed [] = Inr allowed"
| "allowed_loop allowed (i # ids) =
     (if i \<le> 0 then
        Inl (Message (''allowed GitHub App installation ID must be positive: '' @ format_int i))
      else if i \<in> allowed then
        Inl (Message (''duplicate allowed GitHub App installation ID: '' @ format_int i))
      else allowed_loop (insert i allowed) ids)"

definition allowedInstallationIDSet :: "int64 list \<Rightarrow> (err, int64 set) result" where
  "allowedInstallationIDSet ids =
     (if ids = [] then
        Inl (Message ''at least one allowed GitHub App installation ID is required'')
      else allowed_loop {} ids)"

definition defaultAPIURL :: string where
  "defaultAPIURL = ''https://api.github.com''"

definition github_New :: "golib \<Rightarrow> 'w outside \<Rightarrow> GitHubConfig \<Rightarrow> (err, Authorizer) result" where
  "github_New g env cfg =
     bind_result (parsePrivateKey env (gc_PrivateKeyPEM cfg)) (\<lambda>key.
       (let apiURL = trim_right_chars ''/''
              (if gc_APIURL cfg = [] then defaultAPIURL else gc_APIURL cfg)
        in case url_parse g apiURL of
             None \<Rightarrow> Inl (Message ''GitHub API URL must be absolute'')
           | Some u \<Rightarrow>
               if scheme u = [] \<or> host u = [] then Inl (Message ''GitHub API URL must be absolute'')
               else if trim_space (gc_ClientID cfg) = [] then
                 Inl (Message ''GitHub App client ID is required'')
               else bind_result (allowedInstallationIDSet (gc_AllowedInstallationIDs cfg)) (\<lambda>allowed.
                 Inr \<lparr>clientID = gc_ClientID cfg, privateKey = key,
                   allowedInstallationIDs = allowed,
                   allowedInstallationIDList = gc_AllowedInstallationIDs cfg,
                   baseURL = u, gh_metrics = gc_Metrics cfg, appJWT = [], jwtExpires = 0\<rparr>)))"

subsection \<open>Requests\<close>

definition gh_observe :: "'w outside \<Rightarrow> string \<Rightarrow> string \<Rightarrow> time \<Rightarrow> 'w gh_state \<Rightarrow> 'w gh_state" where
  "gh_observe env operation status started s =
     (case gh_metrics (fst s) of
        None \<Rightarrow> s
      | Some m \<Rightarrow>
          (let (now, w) = clock env (snd s) in
           ((fst s)\<lparr>gh_metrics := Some (m
              \<lparr>GitHubRequests := inc [operation, status] (GitHubRequests m),
               GitHubDuration := observe [operation] (time_sub now started) (GitHubDuration m)\<rparr>)\<rparr>, w)))"

definition retryAfterError :: "'w outside \<Rightarrow> api_response \<Rightarrow> 'w \<Rightarrow> err \<times> 'w" where
  "retryAfterError env response w =
     (case parse_int (api_Header response ''Retry-After'') of
        Some seconds \<Rightarrow>
          if 0 < seconds then (RetryAfterError ErrRateLimited (wrap64 (seconds * second)), w)
          else
            (case parse_int (api_Header response ''X-RateLimit-Reset'') of
               None \<Rightarrow> (RetryAfterError ErrRateLimited minute, w)
             | Some reset \<Rightarrow>
                 (let (now, w') = clock env w; candidate = time_sub (unix_seconds reset) now
                  in (RetryAfterError ErrRateLimited (if 0 < candidate then candidate else minute), w')))
      | None \<Rightarrow>
          (case parse_int (api_Header response ''X-RateLimit-Reset'') of
             None \<Rightarrow> (RetryAfterError ErrRateLimited minute, w)
           | Some reset \<Rightarrow>
               (let (now, w') = clock env w; candidate = time_sub (unix_seconds reset) now
                in (RetryAfterError ErrRateLimited (if 0 < candidate then candidate else minute), w'))))"

definition mapResponseError :: "'w outside \<Rightarrow> api_response \<Rightarrow> 'w \<Rightarrow> err \<times> 'w" where
  "mapResponseError env response w =
     (let code = StatusCode response in
      if code = 401 then (ErrUnauthenticated, w)
      else if code = 403 then
        (if api_Header response ''X-RateLimit-Remaining'' = ''0'' then retryAfterError env response w
         else (ErrForbidden, w))
      else if code = 404 then (ErrForgeNotFound, w)
      else if code = 429 then retryAfterError env response w
      else if 500 \<le> code then (ErrForgeUnavailable, w)
      else (ErrUnauthenticated, w))"

fun parse_next_parts :: "string list \<Rightarrow> string" where
  "parse_next_parts [] = []"
| "parse_next_parts (part # parts) =
     (let segments = split_on (CHR '';'') part in
      if length segments < 2 \<or> \<not> contains (segments ! 1) ''rel=\"next\"'' then parse_next_parts parts
      else trim_chars ''<>'' (trim_space (hd segments)))"

definition parseNext :: "string \<Rightarrow> string" where
  "parseNext link = parse_next_parts (split_on (CHR '','') link)"

definition claims_at :: "Authorizer \<Rightarrow> time \<Rightarrow> jwt_claims" where
  "claims_at a now = \<lparr>Issuer = clientID a, IssuedAt = now - 60 * second,
     ExpiresAt = now + 9 * minute\<rparr>"

definition signedAppJWT :: "'w outside \<Rightarrow> ('w, string) gh" where
  "signedAppJWT env s =
     (let a = fst s; (now, w) = clock env (snd s) in
      if appJWT a \<noteq> [] \<and> now + minute < jwtExpires a then (Inr (appJWT a), (a, w))
      else case sign_RS256 env (privateKey a) (claims_at a now) of
        None \<Rightarrow> (Inl (Wrapped ''sign GitHub App JWT'' (Library (Failed ''SignedString'' []))), (a, w))
      | Some signed \<Rightarrow>
          (Inr signed, (a\<lparr>appJWT := signed, jwtExpires := now + 9 * minute\<rparr>, w)))"

definition appAuthorization :: "'w outside \<Rightarrow> ('w, string) gh" where
  "appAuthorization env s =
     (case signedAppJWT env s of
        (Inl e, s') \<Rightarrow> (Inl e, s')
      | (Inr value, s') \<Rightarrow> (Inr (''Bearer '' @ value), s'))"

definition userAuthorization :: "string \<Rightarrow> ('w, string) gh" where
  "userAuthorization token s = (Inr (''Bearer '' @ token), s)"

definition endpoint_of :: "golib \<Rightarrow> Authorizer \<Rightarrow> string \<Rightarrow> string" where
  "endpoint_of g a target =
     (if has_prefix target ''http://'' \<or> has_prefix target ''https://'' then target
      else url_string (baseURL a) @ target)"

text \<open>A body is read up to four megabytes, and only its first value counts.\<close>

definition decoded :: "'t decoder \<Rightarrow> 't \<Rightarrow> api_response \<Rightarrow> 't option" where
  "decoded dec zero response =
     (case decode_next (LimitReader 4194304 (api_Body response)) of
        Inl _ \<Rightarrow> None
      | Inr (j, _) \<Rightarrow> dec j zero)"

text \<open>
  \<open>dec\<close> and \<open>zero\<close> are the decoder and the zero value of the target struct. The request
  also carries the fixed headers Accept, X-GitHub-Api-Version and User-Agent.
\<close>

definition requestWithNext ::
    "golib \<Rightarrow> 'w outside \<Rightarrow> string \<Rightarrow> string \<Rightarrow> ('w, string) gh \<Rightarrow> 't decoder \<Rightarrow> 't \<Rightarrow> ('w, 't \<times> string) gh" where
  "requestWithNext g env target operation auth dec zero s =
     (let endpoint = endpoint_of g (fst s) target in
      if url_parse g endpoint = None then (Inl ErrForgeUnavailable, s)
      else case auth s of
        (Inl e, s1) \<Rightarrow> (Inl (Wrapped ''create GitHub authorization'' e), s1)
      | (Inr authorization, (a1, w1)) \<Rightarrow>
          (let (started, w2) = clock env w1 in
           case client_Do env \<lparr>api_URL = endpoint, api_Method = ''GET'', api_Authorization = authorization\<rparr> w2 of
             (None, w3) \<Rightarrow> (Inl ErrForgeUnavailable, gh_observe env operation ''network_error'' started (a1, w3))
           | (Some response, w3) \<Rightarrow>
               (let (a2, w4) = gh_observe env operation (format_int (StatusCode response)) started (a1, w3) in
                if StatusCode response < 200 \<or> 300 \<le> StatusCode response then
                  (let (e, w5) = mapResponseError env response w4 in (Inl e, (a2, w5)))
                else case decoded dec zero response of
                  None \<Rightarrow> (Inl ErrForgeUnavailable, (a2, w4))
                | Some v \<Rightarrow> (Inr (v, parseNext (api_Header response ''Link'')), (a2, w4)))))"

definition request ::
    "golib \<Rightarrow> 'w outside \<Rightarrow> string \<Rightarrow> string \<Rightarrow> ('w, string) gh \<Rightarrow> 't decoder \<Rightarrow> 't \<Rightarrow> ('w, 't) gh" where
  "request g env target operation auth dec zero s =
     (case requestWithNext g env target operation auth dec zero s of
        (Inl e, s') \<Rightarrow> (Inl e, s')
      | (Inr (v, _), s') \<Rightarrow> (Inr v, s'))"

subsection \<open>Response structs\<close>

record installation =
  ins_ID :: int64
  ins_ClientID :: string
  ins_AppID :: int64

definition installation_zero :: installation where
  "installation_zero = \<lparr>ins_ID = 0, ins_ClientID = [], ins_AppID = 0\<rparr>"

definition decode_installation :: "installation decoder" where
  "decode_installation = decode_object
     [field ''id'' decode_int ins_ID (\<lambda>v s. s\<lparr>ins_ID := v\<rparr>),
      field ''client_id'' decode_string ins_ClientID (\<lambda>v s. s\<lparr>ins_ClientID := v\<rparr>),
      field ''app_id'' decode_int ins_AppID (\<lambda>v s. s\<lparr>ins_AppID := v\<rparr>)]"

text \<open>The struct of the startup check has no App ID, so that member is skipped there.\<close>

definition decode_allowed_installation :: "installation decoder" where
  "decode_allowed_installation = decode_object
     [field ''id'' decode_int ins_ID (\<lambda>v s. s\<lparr>ins_ID := v\<rparr>),
      field ''client_id'' decode_string ins_ClientID (\<lambda>v s. s\<lparr>ins_ClientID := v\<rparr>)]"

definition decode_app :: "string decoder" where
  "decode_app = decode_object [field ''client_id'' decode_string (\<lambda>s. s) (\<lambda>v s. v)]"

definition decode_installations :: "int64 list decoder" where
  "decode_installations = decode_object
     [field ''installations''
        (decode_list (decode_object [field ''id'' decode_int (\<lambda>s. s) (\<lambda>v s. v)]) 0)
        (\<lambda>s. s) (\<lambda>v s. v)]"

record repository =
  rp_ID :: int64
  rp_FullName :: string
  rp_Pull :: bool
  rp_Push :: bool

definition repository_zero :: repository where
  "repository_zero = \<lparr>rp_ID = 0, rp_FullName = [], rp_Pull = False, rp_Push = False\<rparr>"

definition decode_repository :: "repository decoder" where
  "decode_repository = decode_object
     [field ''id'' decode_int rp_ID (\<lambda>v s. s\<lparr>rp_ID := v\<rparr>),
      field ''full_name'' decode_string rp_FullName (\<lambda>v s. s\<lparr>rp_FullName := v\<rparr>),
      (''permissions'', decode_object
         [field ''pull'' decode_bool rp_Pull (\<lambda>v s. s\<lparr>rp_Pull := v\<rparr>),
          field ''push'' decode_bool rp_Push (\<lambda>v s. s\<lparr>rp_Push := v\<rparr>)])]"

subsection \<open>Authorize\<close>

text \<open>The loop over the pages of the user's installations; \<open>pages\<close> counts down from 100.\<close>

fun installation_pages ::
    "golib \<Rightarrow> 'w outside \<Rightarrow> string \<Rightarrow> int64 \<Rightarrow> nat \<Rightarrow> string \<Rightarrow> ('w, bool) gh" where
  "installation_pages g env token wanted 0 endpoint s = (Inl ErrForgeUnavailable, s)"
| "installation_pages g env token wanted (Suc pages) endpoint s =
     (case requestWithNext g env endpoint ''user_installations'' (userAuthorization token)
             decode_installations [] s of
        (Inl e, s') \<Rightarrow> (Inl e, s')
      | (Inr (ids, next), s') \<Rightarrow>
          if wanted \<in> set ids then (Inr True, s')
          else if next = [] then (Inr False, s')
          else installation_pages g env token wanted pages next s')"

definition userCanAccessInstallation ::
    "golib \<Rightarrow> 'w outside \<Rightarrow> string \<Rightarrow> int64 \<Rightarrow> ('w, bool) gh" where
  "userCanAccessInstallation g env token target =
     installation_pages g env token target 100 ''/user/installations?per_page=100''"

definition installation_path :: "string \<Rightarrow> string \<Rightarrow> string" where
  "installation_path owner repo =
     ''/repos/'' @ path_escape owner @ ''/'' @ path_escape repo @ ''/installation''"

definition repository_path :: "string \<Rightarrow> string" where
  "repository_path p = take (nat (last_index p ''/installation'')) p"

definition effective_permission :: "repository \<Rightarrow> Permission" where
  "effective_permission r =
     (if rp_Push r then PermissionWrite else if rp_Pull r then PermissionRead else PermissionNone)"

definition resolve_repository ::
    "golib \<Rightarrow> 'w outside \<Rightarrow> string \<Rightarrow> string \<Rightarrow> ('w, Authorization) gh" where
  "resolve_repository g env p token s =
     (case request g env (repository_path p) ''repository'' (userAuthorization token)
             decode_repository repository_zero s of
        (Inl e, s') \<Rightarrow> (Inl e, s')
      | (Inr repo, s') \<Rightarrow>
          if rp_ID repo \<le> 0 \<or> rp_FullName repo = [] then (Inl ErrForgeNotFound, s')
          else (Inr \<lparr>RepositoryID = rp_ID repo, Permission = effective_permission repo,
                     CanonicalName = rp_FullName repo\<rparr>, s'))"

definition admitted :: "Authorizer \<Rightarrow> installation \<Rightarrow> bool" where
  "admitted a ins =
     (0 < ins_ID ins \<and> (ins_ClientID ins = [] \<or> ins_ClientID ins = clientID a)
      \<and> ins_ID ins \<in> allowedInstallationIDs a)"

definition Authorize ::
    "golib \<Rightarrow> 'w outside \<Rightarrow> string \<Rightarrow> string \<Rightarrow> string \<Rightarrow> ('w, Authorization) gh" where
  "Authorize g env owner repo token s =
     (if \<not> has_prefix token ''ghu_'' then (Inl ErrUnauthenticated, s)
      else
        (let p = installation_path owner repo in
         case request g env p ''repository_installation'' (appAuthorization env)
                decode_installation installation_zero s of
           (Inl e, s1) \<Rightarrow> (Inl e, s1)
         | (Inr ins, s1) \<Rightarrow>
             if \<not> admitted (fst s1) ins then (Inl ErrForgeNotFound, s1)
             else
               (case userCanAccessInstallation g env token (ins_ID ins) s1 of
                  (Inl e, s2) \<Rightarrow> (Inl e, s2)
                | (Inr matched, s2) \<Rightarrow>
                    if \<not> matched then (Inl ErrUnauthenticated, s2)
                    else resolve_repository g env p token s2)))"

subsection \<open>Validate\<close>

fun validate_installations :: "golib \<Rightarrow> 'w outside \<Rightarrow> int64 list \<Rightarrow> ('w, unit) gh" where
  "validate_installations g env [] s = (Inr (), s)"
| "validate_installations g env (allowedID # ids) s =
     (case request g env (''/app/installations/'' @ format_int allowedID) ''installation_validation''
             (appAuthorization env) decode_allowed_installation installation_zero s of
        (Inl e, s') \<Rightarrow>
          (Inl (Wrapped (''validate allowed GitHub App installation '' @ format_int allowedID) e), s')
      | (Inr ins, s') \<Rightarrow>
          if ins_ID ins \<noteq> allowedID \<or> (ins_ClientID ins \<noteq> [] \<and> ins_ClientID ins \<noteq> clientID (fst s')) then
            (Inl (Message (''allowed GitHub App installation '' @ format_int allowedID
               @ '' does not match configured App'')), s')
          else validate_installations g env ids s')"

definition github_Validate :: "golib \<Rightarrow> 'w outside \<Rightarrow> ('w, unit) gh" where
  "github_Validate g env s =
     (case request g env ''/app'' ''app_validation'' (appAuthorization env) decode_app [] s of
        (Inl e, s') \<Rightarrow> (Inl (Wrapped ''validate GitHub App credentials'' e), s')
      | (Inr app, s') \<Rightarrow>
          if app \<noteq> [] \<and> app \<noteq> clientID (fst s') then
            (Inl (Message ''GitHub authenticated App client ID does not match configuration''), s')
          else validate_installations g env (allowedInstallationIDList (fst s')) s')"

subsection \<open>What every operation keeps\<close>

definition same_config :: "Authorizer \<Rightarrow> Authorizer \<Rightarrow> bool" where
  "same_config a b = (clientID a = clientID b \<and> privateKey a = privateKey b
     \<and> allowedInstallationIDs a = allowedInstallationIDs b
     \<and> allowedInstallationIDList a = allowedInstallationIDList b \<and> baseURL a = baseURL b)"

lemma same_config_refl [simp]: "same_config a a"
  by (simp add: same_config_def)

lemma same_config_trans [trans]: "same_config a b \<Longrightarrow> same_config b c \<Longrightarrow> same_config a c"
  by (simp add: same_config_def)

lemma gh_observe_metrics:
  assumes "gh_observe env operation status started (b, w) = (b', w')"
  shows "\<exists>m. b' = b\<lparr>gh_metrics := m\<rparr>"
proof (cases "gh_metrics b")
  case None
  then have "b' = b\<lparr>gh_metrics := None\<rparr>" using assms by (simp add: gh_observe_def)
  then show ?thesis by blast
next
  case (Some m)
  then show ?thesis using assms by (auto simp: gh_observe_def split: prod.splits)
qed

lemma gh_observe_same:
  assumes "gh_observe env operation status started (b, w) = (b', w')"
  shows "same_config a b' = same_config a b" "appJWT b' = appJWT b" "jwtExpires b' = jwtExpires b"
proof -
  obtain m where "b' = b\<lparr>gh_metrics := m\<rparr>" using gh_observe_metrics [OF assms] by blast
  then show "same_config a b' = same_config a b" "appJWT b' = appJWT b" "jwtExpires b' = jwtExpires b"
    by (simp_all add: same_config_def)
qed

lemma same_config_uses:
  assumes "same_config a b"
  shows "endpoint_of g b = endpoint_of g a" "admitted b = admitted a" "claims_at b = claims_at a"
    "clientID b = clientID a" "allowedInstallationIDList b = allowedInstallationIDList a"
    "privateKey b = privateKey a"
  using assms by (auto simp: same_config_def endpoint_of_def admitted_def claims_at_def fun_eq_iff)

text \<open>An authorization callback of the package: it sends nothing and keeps the settings.\<close>

lemma signedAppJWT_same:
  "signedAppJWT env (a, w) = (r, (a', w')) \<Longrightarrow> same_config a a'"
  by (auto simp: signedAppJWT_def same_config_def Let_def split: prod.splits if_splits option.splits)

lemma appAuthorization_same:
  "appAuthorization env (a, w) = (r, (a', w')) \<Longrightarrow> same_config a a'"
  by (auto simp: appAuthorization_def split: prod.splits sum.splits dest: signedAppJWT_same)

text \<open>
  What an authorizer keeps is decided at two places: where it signs a token, and where it
  counts a request under the name of the operation and the status of the answer. A predicate
  both keep is kept by every operation.
\<close>

definition gh_operations :: "string set" where
  "gh_operations = {''app_validation'', ''installation_validation'', ''repository_installation'',
     ''user_installations'', ''repository''}"

definition request_statuses :: "string set" where
  "request_statuses = insert ''network_error'' (range format_int)"

lemma gh_operationsI [simp, intro]:
  "''app_validation'' \<in> gh_operations" "''installation_validation'' \<in> gh_operations"
  "''repository_installation'' \<in> gh_operations" "''user_installations'' \<in> gh_operations" "''repository'' \<in> gh_operations"
  "''network_error'' \<in> request_statuses" "format_int n \<in> request_statuses"
  by (simp_all add: gh_operations_def request_statuses_def)

locale authorizer_invariant =
  fixes env :: "'w outside" and P :: "Authorizer \<Rightarrow> bool"
  assumes observe_keeps: "operation \<in> gh_operations \<Longrightarrow> status \<in> request_statuses \<Longrightarrow> P a \<Longrightarrow>
      gh_observe env operation status started (a, w) = (a', w') \<Longrightarrow> P a'"
    and sign_keeps: "P a \<Longrightarrow> signedAppJWT env (a, w) = (r, (a', w')) \<Longrightarrow> P a'"
begin

lemma requestWithNext_keeps:
  assumes "P a" and "requestWithNext g env target operation auth dec zero (a, w) = (r, (a', w'))"
    and "auth \<in> insert (appAuthorization env) (range userAuthorization)" and "operation \<in> gh_operations"
  shows "P a'"
proof -
  obtain v b w1 where v: "auth (a, w) = (v, (b, w1))" by (metis prod.exhaust)
  then have "P b"
    using assms(1,3)
    by (auto simp: appAuthorization_def userAuthorization_def split: prod.splits sum.splits dest: sign_keeps)
  then show ?thesis
    using assms(1,2,4) v
    by (auto simp: requestWithNext_def Let_def split: option.splits if_splits prod.splits sum.splits dest: observe_keeps)
qed

lemma request_keeps:
  assumes "P a" and "request g env target operation auth dec zero (a, w) = (r, (a', w'))"
    and "auth \<in> insert (appAuthorization env) (range userAuthorization)" and "operation \<in> gh_operations"
  shows "P a'"
  using assms requestWithNext_keeps [OF assms(1) _ assms(3,4), of g target dec zero w]
  by (auto simp: request_def split: prod.splits sum.splits)

lemma installation_pages_keeps:
  "P a \<Longrightarrow> installation_pages g env token wanted pages u (a, w) = (r, (a', w')) \<Longrightarrow> P a'"
proof (induction pages arbitrary: u a w)
  case (Suc pages)
  obtain q b w1 where q: "requestWithNext g env u ''user_installations'' (userAuthorization token)
      decode_installations [] (a, w) = (q, (b, w1))" by (metis prod.exhaust)
  have "P b" using requestWithNext_keeps [OF Suc.prems(1) q] by simp
  then show ?case using Suc.prems(2) q Suc.IH by (auto split: sum.splits if_splits)
qed simp

lemma Authorize_keeps:
  assumes "P a" and "Authorize g env owner repo token (a, w) = (r, (a', w'))"
  shows "P a'"
proof (cases "has_prefix token ''ghu_''")
  case True
  let ?p = "installation_path owner repo"
  obtain q b w1 where q: "request g env ?p ''repository_installation'' (appAuthorization env)
      decode_installation installation_zero (a, w) = (q, (b, w1))" by (metis prod.exhaust)
  have b: "P b" using request_keeps [OF assms(1) q] by simp
  obtain m c w2 where m: "userCanAccessInstallation g env token (ins_ID (projr q)) (b, w1) = (m, (c, w2))"
    by (metis prod.exhaust)
  have c: "P c" using installation_pages_keeps [OF b] m by (simp add: userCanAccessInstallation_def)
  obtain s d w3 where s: "request g env (repository_path ?p) ''repository'' (userAuthorization token)
      decode_repository repository_zero (c, w2) = (s, (d, w3))" by (metis prod.exhaust)
  have "P d" using request_keeps [OF c s] by simp
  then show ?thesis using assms(2) True q m s b c
    by (auto simp: Authorize_def resolve_repository_def Let_def split: sum.splits if_splits)
qed (use assms in \<open>auto simp: Authorize_def\<close>)

lemma validate_installations_keeps:
  "P a \<Longrightarrow> validate_installations g env ids (a, w) = (r, (a', w')) \<Longrightarrow> P a'"
proof (induction ids arbitrary: a w)
  case (Cons i ids)
  obtain q b w1 where q: "request g env (''/app/installations/'' @ format_int i) ''installation_validation''
      (appAuthorization env) decode_allowed_installation installation_zero (a, w) = (q, (b, w1))"
    by (metis prod.exhaust)
  have "P b" using request_keeps [OF Cons.prems(1) q] by simp
  then show ?case using Cons.prems(2) q Cons.IH by (auto split: sum.splits if_splits)
qed simp

lemma Validate_keeps:
  assumes "P a" and "github_Validate g env (a, w) = (r, (a', w'))"
  shows "P a'"
proof -
  obtain q b w1 where q: "request g env ''/app'' ''app_validation'' (appAuthorization env) decode_app [] (a, w)
      = (q, (b, w1))" by (metis prod.exhaust)
  have "P b" using request_keeps [OF assms(1) q] by simp
  then show ?thesis using assms(2) q
    by (auto simp: github_Validate_def split: sum.splits if_splits dest: validate_installations_keeps)
qed

end

text \<open>The settings of an authorizer never change.\<close>

interpretation config: authorizer_invariant env "same_config a" for env a
  by unfold_locales (auto simp: gh_observe_same intro: same_config_trans dest: signedAppJWT_same)

subsection \<open>Recording the exchanges\<close>

text \<open>
  \<open>recording env\<close> behaves as \<open>env\<close> and keeps the list of exchanges with GitHub, each request
  with its answer. The properties about what is sent, and about what a decision rests on,
  read that list.
\<close>

type_synonym exchange = "api_request \<times> api_response option"

definition recording :: "'w outside \<Rightarrow> ('w \<times> exchange list) outside" where
  "recording env = \<lparr>
     clock = (\<lambda>(w, l). (fst (clock env w), (snd (clock env w), l))),
     client_Do = (\<lambda>q (w, l). (fst (client_Do env q w), (snd (client_Do env q w), l @ [(q, fst (client_Do env q w))]))),
     sign_RS256 = sign_RS256 env, pem_decode = pem_decode env,
     parse_pkcs1 = parse_pkcs1 env, parse_pkcs8 = parse_pkcs8 env\<rparr>"

lemma recording_simps [simp]:
  "clock (recording env) (w, l) = (fst (clock env w), (snd (clock env w), l))"
  "client_Do (recording env) q (w, l) =
     (fst (client_Do env q w), (snd (client_Do env q w), l @ [(q, fst (client_Do env q w))]))"
  "sign_RS256 (recording env) = sign_RS256 env"
  by (simp_all add: recording_def)

definition sent_to :: "golib \<Rightarrow> Authorizer \<Rightarrow> string \<Rightarrow> string \<Rightarrow> api_request" where
  "sent_to g a target value = \<lparr>api_URL = endpoint_of g a target, api_Method = ''GET'',
     api_Authorization = ''Bearer '' @ value\<rparr>"

lemma sent_to_credential [simp]: "api_Authorization (sent_to g a target value) = ''Bearer '' @ value"
  by (simp add: sent_to_def)

definition replies :: "'t decoder \<Rightarrow> 't \<Rightarrow> exchange \<Rightarrow> 't \<Rightarrow> bool" where
  "replies dec zero x v =
     (case snd x of None \<Rightarrow> False
      | Some response \<Rightarrow> 200 \<le> StatusCode response \<and> StatusCode response < 300
          \<and> decoded dec zero response = Some v)"

lemma recorded_retry:
  "retryAfterError (recording env) response (w, l) = (e, (w', l')) \<Longrightarrow> l' = l"
  by (auto simp: retryAfterError_def Let_def split: option.splits if_splits)

lemma recorded_error:
  "mapResponseError (recording env) response (w, l) = (e, (w', l')) \<Longrightarrow> l' = l"
  by (auto simp: mapResponseError_def Let_def split: if_splits dest: recorded_retry)

lemma recorded_observe:
  "gh_observe (recording env) operation status started (a, (w, l)) = (a', (w', l')) \<Longrightarrow> same_config a a' \<and> l' = l"
  by (auto simp: gh_observe_def same_config_def Let_def split: option.splits)

lemma recorded_jwt:
  "signedAppJWT (recording env) (a, (w, l)) = (r, (a', (w', l'))) \<Longrightarrow> l' = l"
  by (auto simp: signedAppJWT_def Let_def split: prod.splits if_splits option.splits)

lemma recorded_app:
  assumes "appAuthorization (recording env) (a, (w, l)) = (r, (a', (w', l')))"
  shows "l' = l \<and> (\<forall>v. r = Inr v \<longrightarrow> (\<exists>jwt. v = ''Bearer '' @ jwt))"
  using assms
  by (auto simp: appAuthorization_def split: prod.splits sum.splits dest: recorded_jwt)

text \<open>One call sends at most one request, and a value comes from its answer.\<close>

lemma requestWithNext_recorded:
  assumes run: "requestWithNext g (recording env) target operation auth dec zero (a, (w, l))
      = (r, (a', (w', l')))"
    and auth: "\<And>v b w1 l1. auth (a, (w, l)) = (v, (b, (w1, l1))) \<Longrightarrow> l1 = l \<and> same_config a b
      \<and> (\<forall>x. v = Inr x \<longrightarrow> (\<exists>value. x = ''Bearer '' @ value \<and> good value))"
  shows "same_config a a' \<and> (\<exists>xs. l' = l @ xs \<and> length xs \<le> 1
      \<and> (\<forall>x\<in>set xs. \<exists>value. good value \<and> fst x = sent_to g a target value)
      \<and> (\<forall>v n. r = Inr (v, n) \<longrightarrow> (\<exists>x. xs = [x] \<and> replies dec zero x v)))"
proof (cases "url_parse g (endpoint_of g a target) = None")
  case True
  with run show ?thesis by (auto simp: requestWithNext_def)
next
  case parsed: False
  obtain v b w1 l1 where v: "auth (a, (w, l)) = (v, (b, (w1, l1)))" by (metis prod.exhaust)
  note b = auth [OF v]
  show ?thesis
  proof (cases v)
    case (Inl e)
    with run v b parsed show ?thesis by (auto simp: requestWithNext_def)
  next
    case (Inr x)
    then obtain cred where x: "x = ''Bearer '' @ cred" and good: "good cred" using b by blast
    let ?q = "sent_to g a target cred"
    have q: "\<lparr>api_URL = endpoint_of g a target, api_Method = ''GET'', api_Authorization = x\<rparr> = ?q"
      by (simp add: sent_to_def x)
    obtain ans w2 where ans: "client_Do env ?q (snd (clock env w1)) = (ans, w2)" by (metis prod.exhaust)
    have "same_config a a' \<and> l' = l @ [(?q, ans)] \<and> (\<forall>v n. r = Inr (v, n) \<longrightarrow> replies dec zero (?q, ans) v)"
      using run v b parsed Inr ans unfolding requestWithNext_def
      by (auto simp: q Let_def replies_def split: option.splits if_splits prod.splits
          intro: same_config_trans dest: recorded_error dest!: recorded_observe)
    then show ?thesis using good by (intro conjI exI [of _ "[(?q, ans)]"]) auto
  qed
qed

lemma user_requestWithNext:
  assumes "requestWithNext g (recording env) target operation (userAuthorization token) dec zero
      (a, (w, l)) = (r, (a', (w', l')))"
  shows "same_config a a' \<and> (\<exists>xs. l' = l @ xs \<and> length xs \<le> 1
      \<and> (\<forall>x\<in>set xs. fst x = sent_to g a target token)
      \<and> (\<forall>v n. r = Inr (v, n) \<longrightarrow> (\<exists>x. xs = [x] \<and> replies dec zero x v)))"
  using requestWithNext_recorded [OF assms, of "\<lambda>v. v = token"]
  by (auto simp: userAuthorization_def)

lemma user_request:
  assumes "request g (recording env) target operation (userAuthorization token) dec zero
      (a, (w, l)) = (r, (a', (w', l')))"
  shows "same_config a a' \<and> (\<exists>xs. l' = l @ xs \<and> length xs \<le> 1
      \<and> (\<forall>x\<in>set xs. fst x = sent_to g a target token)
      \<and> (\<forall>v. r = Inr v \<longrightarrow> (\<exists>x. xs = [x] \<and> replies dec zero x v)))"
  using assms
  by (auto simp: request_def split: prod.splits sum.splits dest!: user_requestWithNext)

lemma app_request:
  assumes "request g (recording env) target operation (appAuthorization (recording env)) dec zero
      (a, (w, l)) = (r, (a', (w', l')))"
  shows "same_config a a' \<and> (\<exists>xs. l' = l @ xs \<and> length xs \<le> 1
      \<and> (\<forall>x\<in>set xs. \<exists>jwt. fst x = sent_to g a target jwt)
      \<and> (\<forall>v. r = Inr v \<longrightarrow> (\<exists>x. xs = [x] \<and> replies dec zero x v)))"
proof -
  have auth: "l1 = l \<and> same_config a b \<and> (\<forall>x. v = Inr x \<longrightarrow> (\<exists>value. x = ''Bearer '' @ value \<and> True))"
    if "appAuthorization (recording env) (a, (w, l)) = (v, (b, (w1, l1)))" for v b w1 l1
    using recorded_app [OF that] appAuthorization_same [OF that] by simp
  obtain q where q: "requestWithNext g (recording env) target operation
      (appAuthorization (recording env)) dec zero (a, (w, l)) = (q, (a', (w', l')))"
    "r = (case q of Inl e \<Rightarrow> Inl e | Inr p \<Rightarrow> Inr (fst p))"
    using assms by (auto simp: request_def split: prod.splits sum.splits)
  show ?thesis
    using requestWithNext_recorded [OF q(1), of "\<lambda>_. True", OF auth] q(2)
    by (auto split: sum.splits)
qed

lemma pages_recorded:
  assumes "installation_pages g (recording env) token wanted pages endpoint (a, (w, l))
      = (r, (a', (w', l')))"
  shows "same_config a a' \<and> (\<exists>xs. l' = l @ xs \<and> length xs \<le> pages
      \<and> (\<forall>x\<in>set xs. api_Authorization (fst x) = ''Bearer '' @ token)
      \<and> (r = Inr True \<longrightarrow> xs \<noteq> [] \<and> (\<exists>ids. replies decode_installations [] (last xs) ids \<and> wanted \<in> set ids)))"
  using assms
proof (induction pages arbitrary: endpoint a w l)
  case (Suc pages)
  obtain q b w1 l1 where q: "requestWithNext g (recording env) endpoint ''user_installations''
      (userAuthorization token) decode_installations [] (a, (w, l)) = (q, (b, (w1, l1)))"
    by (metis prod.exhaust)
  obtain xs where b: "same_config a b" "l1 = l @ xs" "length xs \<le> 1"
    "\<forall>x\<in>set xs. fst x = sent_to g a endpoint token"
    "\<forall>v n. q = Inr (v, n) \<longrightarrow> (\<exists>x. xs = [x] \<and> replies decode_installations [] x v)"
    using user_requestWithNext [OF q] by blast
  show ?case
  proof (cases "\<exists>ids next. q = Inr (ids, next) \<and> wanted \<notin> set ids \<and> next \<noteq> []")
    case True
    then obtain ids "next" where step: "q = Inr (ids, next)" "wanted \<notin> set ids" "next \<noteq> []" by blast
    then have "installation_pages g (recording env) token wanted pages next (b, (w1, l1)) = (r, (a', (w', l')))"
      using Suc.prems q by simp
    from Suc.IH [OF this] obtain ys where "same_config b a'" "l' = l1 @ ys" "length ys \<le> pages"
      "\<forall>x\<in>set ys. api_Authorization (fst x) = ''Bearer '' @ token"
      "r = Inr True \<longrightarrow> ys \<noteq> [] \<and> (\<exists>ids. replies decode_installations [] (last ys) ids \<and> wanted \<in> set ids)"
      by blast
    with b show ?thesis
      by (intro conjI exI [of _ "xs @ ys"]) (auto intro: same_config_trans)
  next
    case False
    then have last: "a' = b" "l' = l1"
      and found: "r = Inr True \<Longrightarrow> \<exists>ids next. q = Inr (ids, next) \<and> wanted \<in> set ids"
      using Suc.prems q by (auto split: sum.splits if_splits)
    have "xs \<noteq> [] \<and> (\<exists>ids. replies decode_installations [] (last xs) ids \<and> wanted \<in> set ids)"
      if r: "r = Inr True"
    proof -
      obtain ids "next" where ids: "q = Inr (ids, next)" "wanted \<in> set ids" using found [OF r] by blast
      then obtain x where "xs = [x]" "replies decode_installations [] x ids" using b(5) by blast
      with ids(2) show ?thesis by (intro conjI exI [of _ ids]) simp_all
    qed
    with b last show ?thesis by (intro conjI exI [of _ xs]) auto
  qed
qed auto

subsection \<open>Authorize\<close>

text \<open>The path cut at the last occurrence of the suffix is the path of the repository.\<close>

lemma repository_path_suffix: "repository_path (p @ ''/installation'') = p"
  by (simp only: repository_path_def last_index_suffix nat_int append_eq_conv_conj [THEN iffD1] simp_thms
      take_append take_all_iff diff_self_eq_0 take_0 append_Nil2 order_refl)

definition authorization_of :: "repository \<Rightarrow> Authorization" where
  "authorization_of v = \<lparr>RepositoryID = rp_ID v, Permission = effective_permission v,
     CanonicalName = rp_FullName v\<rparr>"

lemma resolve_recorded:
  assumes run: "resolve_repository g (recording env) p token (c, (w, l)) = (r, (a', (w', l')))"
    and ac: "same_config a c"
  shows "same_config a a' \<and> (\<exists>rest. l' = l @ rest \<and> length rest \<le> 1
     \<and> (\<forall>x\<in>set rest. fst x = sent_to g a (repository_path p) token)
     \<and> (\<forall>auth. r = Inr auth \<longrightarrow> (\<exists>x v. rest = [x] \<and> replies decode_repository repository_zero x v
          \<and> 0 < rp_ID v \<and> rp_FullName v \<noteq> [] \<and> auth = authorization_of v)))"
proof -
  obtain s d w3 l3 where s: "request g (recording env) (repository_path p) ''repository''
      (userAuthorization token) decode_repository repository_zero (c, (w, l)) = (s, (d, (w3, l3)))"
    by (metis prod.exhaust)
  obtain rest where d: "same_config c d" "l3 = l @ rest" "length rest \<le> 1"
    "\<forall>x\<in>set rest. fst x = sent_to g c (repository_path p) token"
    "\<forall>v. s = Inr v \<longrightarrow> (\<exists>x. rest = [x] \<and> replies decode_repository repository_zero x v)"
    using user_request [OF s] by blast
  have "a' = d" "l' = l3" and ok: "\<And>auth. r = Inr auth \<Longrightarrow> \<exists>v. s = Inr v
     \<and> 0 < rp_ID v \<and> rp_FullName v \<noteq> [] \<and> auth = authorization_of v"
    using run s by (auto simp: resolve_repository_def authorization_of_def split: sum.splits if_splits)
  moreover have "sent_to g c t v = sent_to g a t v" for t v
    using same_config_uses(1) [OF ac] by (simp add: sent_to_def)
  ultimately show ?thesis
    using d same_config_trans [OF ac d(1)] ok by (intro conjI exI [of _ rest]) (simp_all, blast)
qed

text \<open>Everything Authorize does, in the three stages that can send something.\<close>

text \<open>The first step: the App asks which installation covers the repository.\<close>

lemma authorize_installation:
  assumes "Authorize g (recording env) owner repo token (a, (w, [])) = (r, (a', (w', log)))"
    and "has_prefix token ''ghu_''"
  obtains (none) e where "r = Inl e" "length log \<le> 1" "same_config a a'"
      "\<forall>x\<in>set log. \<exists>jwt. fst x = sent_to g a (installation_path owner repo) jwt"
  | (found) x0 ins jwt b w1 where
      "request g (recording env) (installation_path owner repo) ''repository_installation''
         (appAuthorization (recording env)) decode_installation installation_zero (a, (w, [])) = (Inr ins, (b, (w1, [x0])))"
      "same_config a b" "fst x0 = sent_to g a (installation_path owner repo) jwt"
      "replies decode_installation installation_zero x0 ins" "admitted a ins"
proof -
  let ?p = "installation_path owner repo"
  obtain q b w1 l1 where q: "request g (recording env) ?p ''repository_installation''
      (appAuthorization (recording env)) decode_installation installation_zero (a, (w, [])) = (q, (b, (w1, l1)))"
    by (metis prod.exhaust)
  obtain xs where b: "same_config a b" "l1 = xs" "length xs \<le> 1"
    "\<forall>x\<in>set xs. \<exists>jwt. fst x = sent_to g a ?p jwt"
    "\<forall>v. q = Inr v \<longrightarrow> (\<exists>x. xs = [x] \<and> replies decode_installation installation_zero x v)"
    using app_request [OF q] by auto
  show thesis
  proof (cases "\<exists>ins. q = Inr ins \<and> admitted a ins")
    case False
    then obtain e where "r = Inl e" "a' = b" "log = l1"
      using assms q same_config_uses(2) [OF b(1)] by (auto simp: Authorize_def split: sum.splits if_splits)
    with none b show thesis by auto
  next
    case True
    then obtain ins x0 jwt where "q = Inr ins" "admitted a ins" "xs = [x0]"
      "replies decode_installation installation_zero x0 ins" "fst x0 = sent_to g a ?p jwt"
      using b by force
    with found q b show thesis by blast
  qed
qed

lemma authorize_cases:
  assumes "Authorize g (recording env) owner repo token (a, (w, [])) = (r, (a', (w', log)))"
  obtains (refused) "\<not> has_prefix token ''ghu_''" "r = Inl ErrUnauthenticated" "log = []" "a' = a"
  | (no_installation) e where "has_prefix token ''ghu_''" "r = Inl e" "length log \<le> 1" "same_config a a'"
      "\<forall>x\<in>set log. \<exists>jwt. fst x = sent_to g a (installation_path owner repo) jwt"
  | (user) x0 ins pages rest jwt m where "has_prefix token ''ghu_''" "log = x0 # pages @ rest" "same_config a a'"
      "fst x0 = sent_to g a (installation_path owner repo) jwt"
      "replies decode_installation installation_zero x0 ins" "admitted a ins"
      "length pages \<le> 100" "length rest \<le> 1"
      "\<forall>x\<in>set pages. api_Authorization (fst x) = ''Bearer '' @ token"
      "\<forall>x\<in>set rest. fst x = sent_to g a (repository_path (installation_path owner repo)) token"
      "m = Inr True \<longrightarrow> pages \<noteq> [] \<and> (\<exists>ids. replies decode_installations [] (last pages) ids \<and> ins_ID ins \<in> set ids)"
      "m \<noteq> Inr True \<longrightarrow> rest = [] \<and> r = (case m of Inl e \<Rightarrow> Inl e | Inr _ \<Rightarrow> Inl ErrUnauthenticated)"
      "\<forall>auth. r = Inr auth \<longrightarrow> (\<exists>x v. rest = [x] \<and> replies decode_repository repository_zero x v
         \<and> 0 < rp_ID v \<and> rp_FullName v \<noteq> [] \<and> auth = authorization_of v)"
proof (cases "has_prefix token ''ghu_''")
  case False
  with assms refused show thesis by (simp add: Authorize_def)
next
  case token: True
  let ?p = "installation_path owner repo"
  from assms token show thesis
  proof (cases rule: authorize_installation)
    case (none e)
    with no_installation token show thesis by auto
  next
    case (found x0 ins jwt b w1)
    note uses = same_config_uses(2) [OF found(2)]
    obtain m c w2 l2 where m: "userCanAccessInstallation g (recording env) token (ins_ID ins) (b, (w1, [x0]))
        = (m, (c, (w2, l2)))" by (metis prod.exhaust)
    obtain pages where c: "same_config b c" "l2 = [x0] @ pages" "length pages \<le> 100"
      "\<forall>x\<in>set pages. api_Authorization (fst x) = ''Bearer '' @ token"
      "m = Inr True \<longrightarrow> pages \<noteq> [] \<and> (\<exists>ids. replies decode_installations [] (last pages) ids \<and> ins_ID ins \<in> set ids)"
      using pages_recorded [OF m [unfolded userCanAccessInstallation_def]] by blast
    have ac: "same_config a c" using found(2) c(1) by (rule same_config_trans)
    show thesis
    proof (cases "m = Inr True")
      case False
      then have "a' = c" "log = l2" "r = (case m of Inl e \<Rightarrow> Inl e | Inr _ \<Rightarrow> Inl ErrUnauthenticated)"
        using assms found token uses m
        by (auto simp: Authorize_def split: sum.splits)
      with False show thesis
        by (intro user [of x0 pages "[]" jwt ins m]) (use token found c ac in \<open>auto split: sum.splits\<close>)
    next
      case True
      have run: "resolve_repository g (recording env) ?p token (c, (w2, l2)) = (r, (a', (w', log)))"
        using assms found token uses m True by (simp add: Authorize_def)
      obtain rest where "same_config a a'" "log = l2 @ rest" "length rest \<le> 1"
        "\<forall>x\<in>set rest. fst x = sent_to g a (repository_path ?p) token"
        "\<forall>auth. r = Inr auth \<longrightarrow> (\<exists>x v. rest = [x] \<and> replies decode_repository repository_zero x v
           \<and> 0 < rp_ID v \<and> rp_FullName v \<noteq> [] \<and> auth = authorization_of v)"
        using resolve_recorded [OF run ac] by blast
      then show thesis
        by (intro user [of x0 pages rest jwt ins m]) (use token found c True in auto)
    qed
  qed
qed

lemma repository_path_of_installation:
  "repository_path (installation_path owner repo) = ''/repos/'' @ path_escape owner @ ''/'' @ path_escape repo"
  using repository_path_suffix [of "''/repos/'' @ path_escape owner @ ''/'' @ path_escape repo"]
  by (simp only: installation_path_def append_assoc)

text \<open>A concrete GitHub for the witnesses: one App, installation 7, repository 42, two pages.\<close>

definition gh_answer0 :: "string \<Rightarrow> api_response option" where
  "gh_answer0 target =
     (let ok = (\<lambda>link j. Some \<lparr>StatusCode = 200, api_Header = (\<lambda>h. if h = ''Link'' then link else []), api_Body = text_stream (json_text j)\<rparr>) in
      if target = ''https://gh/repos/o/r/installation'' then ok [] (JObj [(''id'', JNum ''7''), (''client_id'', JStr ''Iv1'')])
      else if target = ''https://gh/repos/o/x/installation'' then ok [] (JObj [(''id'', JNum ''8'')])
      else if target = ''https://gh/user/installations?per_page=100'' then
        ok ''<https://gh/page2>; rel=\"next\"'' (JObj [(''installations'', JArr [JObj [(''id'', JNum ''3'')]])])
      else if target = ''https://gh/page2'' then ok [] (JObj [(''installations'', JArr [JObj [(''id'', JNum ''7'')]])])
      else if target = ''https://gh/repos/o/r'' then
        ok [] (JObj [(''id'', JNum ''42''), (''full_name'', JStr ''o/r''),
          (''permissions'', JObj [(''pull'', JBool True), (''push'', JBool False)])])
      else if target = ''https://gh/app'' then ok [] (JObj [(''client_id'', JStr ''Iv1'')])
      else if target = ''https://gh/app/installations/7'' then ok [] (JObj [(''id'', JNum ''7''), (''app_id'', JStr ''skipped'')])
      else Some \<lparr>StatusCode = 404, api_Header = (\<lambda>_. []), api_Body = text_stream []\<rparr>)"

definition outside0 :: "time outside" where
  "outside0 = \<lparr>clock = (\<lambda>t. (t, t)), client_Do = (\<lambda>q t. (gh_answer0 (api_URL q), t)),
     sign_RS256 = (\<lambda>k c. Some ''jwt''), pem_decode = (\<lambda>s. Some s), parse_pkcs1 = (\<lambda>s. Some s),
     parse_pkcs8 = (\<lambda>s. None)\<rparr>"

definition github0 :: Authorizer where
  "github0 = \<lparr>clientID = ''Iv1'', privateKey = ''key'', allowedInstallationIDs = {7},
     allowedInstallationIDList = [7],
     baseURL = empty_url\<lparr>scheme := ''https'', host := ''gh''\<rparr>,
     gh_metrics = None, appJWT = [], jwtExpires = 0\<rparr>"

definition run0 :: "string \<Rightarrow> string \<Rightarrow> (err, Authorization) result \<times> Authorizer \<times> time \<times> exchange list" where
  "run0 repo token = Authorize lib0 (recording outside0) ''o'' repo token (github0, (0, []))"

lemma run0_ok: "fst (run0 ''r'' ''ghu_x'') = Inr \<lparr>RepositoryID = 42, Permission = PermissionRead, CanonicalName = ''o/r''\<rparr>"
  by code_simp

lemma run0_other: "fst (run0 ''x'' ''ghu_x'') = Inl ErrForgeNotFound \<and> length (snd (snd (snd (run0 ''x'' ''ghu_x'')))) = 1"
  by code_simp

text \<open>The evidence a grant rests on: the exchanges of one authorization, in order.\<close>

definition github_evidence ::
    "golib \<Rightarrow> Authorizer \<Rightarrow> string \<Rightarrow> string \<Rightarrow> string \<Rightarrow> exchange list \<Rightarrow> Authorization \<Rightarrow> bool" where
  "github_evidence g a owner repo token log auth =
    (has_prefix token ''ghu_'' \<and>
    (\<exists>x0 jwt ins pages ids xr v. log = x0 # pages @ [xr]
      \<and> fst x0 = sent_to g a (installation_path owner repo) jwt
      \<and> replies decode_installation installation_zero x0 ins \<and> admitted a ins
      \<and> pages \<noteq> [] \<and> length pages \<le> 100
      \<and> (\<forall>x\<in>set pages. api_Authorization (fst x) = ''Bearer '' @ token)
      \<and> replies decode_installations [] (last pages) ids \<and> ins_ID ins \<in> set ids
      \<and> fst xr = sent_to g a (''/repos/'' @ path_escape owner @ ''/'' @ path_escape repo) token
      \<and> replies decode_repository repository_zero xr v \<and> 0 < rp_ID v \<and> rp_FullName v \<noteq> []
      \<and> auth = authorization_of v))"

lemma authorize_evidence:
  assumes "Authorize g (recording env) owner repo token (a, (w, [])) = (Inr auth, (a', (w', log)))"
  shows "github_evidence g a owner repo token log auth"
  using assms
proof (cases rule: authorize_cases)
  case (user x0 ins pages rest jwt m)
  have m: "m = Inr True" using user(12) by (auto split: sum.splits)
  obtain x v where "rest = [x]" "replies decode_repository repository_zero x v" "0 < rp_ID v"
    "rp_FullName v \<noteq> []" "auth = authorization_of v" using user(13) by blast
  moreover obtain ids where "replies decode_installations [] (last pages) ids" "ins_ID ins \<in> set ids"
    "pages \<noteq> []" using user(11) m by blast
  moreover have "fst x = sent_to g a (''/repos/'' @ path_escape owner @ ''/'' @ path_escape repo) token"
    using user(10) \<open>rest = [x]\<close> repository_path_of_installation by simp
  ultimately show ?thesis unfolding github_evidence_def using user by blast
qed simp_all





text \<open>The contract of the forge package, for this authorizer.\<close>

interpretation github: authorizer "Authorize g env" "\<lambda>token. has_prefix token ''ghu_''"
  by unfold_locales
    (auto simp: Authorize_def resolve_repository_def Let_def
       split: if_splits prod.splits sum.splits)

subsection \<open>The pages of the user's installations\<close>

text \<open>
  A walk reads pages that do not list the wanted installation and name a next page. It
  starts at one target and ends at another.
\<close>

inductive page_walk ::
    "golib \<Rightarrow> 'w outside \<Rightarrow> string \<Rightarrow> int64 \<Rightarrow> string \<Rightarrow> 'w gh_state \<Rightarrow> nat \<Rightarrow> string \<Rightarrow> 'w gh_state \<Rightarrow> bool"
  for g env token wanted where
  start: "page_walk g env token wanted u s 0 u s"
| turn: "requestWithNext g env u ''user_installations'' (userAuthorization token)
           decode_installations [] s = (Inr (ids, next), s1) \<Longrightarrow> wanted \<notin> set ids \<Longrightarrow> next \<noteq> []
         \<Longrightarrow> page_walk g env token wanted next s1 n v s2
         \<Longrightarrow> page_walk g env token wanted u s (Suc n) v s2"

inductive_cases page_walk_0E: "page_walk g env token wanted u s 0 v s2"
inductive_cases page_walk_SucE: "page_walk g env token wanted u s (Suc n) v s2"

abbreviation page_request ::
    "golib \<Rightarrow> 'w outside \<Rightarrow> string \<Rightarrow> string \<Rightarrow> 'w gh_state \<Rightarrow> (err, int64 list \<times> string) result \<times> 'w gh_state" where
  "page_request g env token u \<equiv>
     requestWithNext g env u ''user_installations'' (userAuthorization token) decode_installations []"

lemma pages_walked:
  "page_walk g env token wanted u s n v s1 \<Longrightarrow>
   installation_pages g env token wanted (n + k) u s = installation_pages g env token wanted k v s1"
  by (induction arbitrary: k rule: page_walk.induct) simp_all

text \<open>How the loop ends, for any number of pages allowed.\<close>

lemma pages_end:
  assumes "installation_pages g env token wanted pages u s = (r, s')"
  shows "\<exists>n v s1. page_walk g env token wanted u s n v s1 \<and> n \<le> pages \<and>
    (if n = pages then s' = s1 \<and> r = Inl ErrForgeUnavailable
     else (case page_request g env token v s1 of
             (Inl e, s2) \<Rightarrow> r = Inl e \<and> s' = s2
           | (Inr (ids, next), s2) \<Rightarrow> s' = s2 \<and> (wanted \<in> set ids \<or> next = []) \<and> r = Inr (wanted \<in> set ids)))"
  using assms
proof (induction pages arbitrary: u s)
  case 0
  then show ?case by (intro exI [of _ 0] exI [of _ u] exI [of _ s]) (auto intro: page_walk.start)
next
  case (Suc pages)
  obtain q s1 where q: "page_request g env token u s = (q, s1)" by (metis prod.exhaust)
  show ?case
  proof (cases "\<exists>ids next. q = Inr (ids, next) \<and> wanted \<notin> set ids \<and> next \<noteq> []")
    case True
    then obtain ids "next" where step: "q = Inr (ids, next)" "wanted \<notin> set ids" "next \<noteq> []" by blast
    then have "installation_pages g env token wanted pages next s1 = (r, s')"
      using Suc.prems q by simp
    from Suc.IH [OF this] obtain n v s2 where n: "page_walk g env token wanted next s1 n v s2" "n \<le> pages"
      "if n = pages then s' = s2 \<and> r = Inl ErrForgeUnavailable
       else (case page_request g env token v s2 of
             (Inl e, s2) \<Rightarrow> r = Inl e \<and> s' = s2
           | (Inr (ids, next), s2) \<Rightarrow> s' = s2 \<and> (wanted \<in> set ids \<or> next = []) \<and> r = Inr (wanted \<in> set ids))"
      by blast
    then show ?thesis using page_walk.turn [OF q [unfolded step(1)] step(2,3) n(1)]
      by (intro exI [of _ "Suc n"] exI [of _ v] exI [of _ s2]) simp
  next
    case False
    then show ?thesis using Suc.prems q
      by (intro exI [of _ 0] exI [of _ u] exI [of _ s])
        (auto intro: page_walk.start split: sum.splits if_splits)
  qed
qed

text \<open>
  Membership of an installation is decided by reading the pages in order: the answer is
  yes exactly when some page, reached in fewer than a hundred turns over pages without it,
  lists the installation, and no exactly when the last page is reached without it.
\<close>

theorem installation_membership_exact:
  "fst (userCanAccessInstallation g env token wanted s) = Inr b
     \<longleftrightarrow> (\<exists>n v s1 ids next. n < 100
           \<and> page_walk g env token wanted ''/user/installations?per_page=100'' s n v s1
           \<and> fst (page_request g env token v s1) = Inr (ids, next)
           \<and> (b = (wanted \<in> set ids)) \<and> (wanted \<in> set ids \<or> next = []))"
    (is "?yes \<longleftrightarrow> ?walk")
proof
  let ?u = "''/user/installations?per_page=100''"
  obtain r s' where run: "installation_pages g env token wanted 100 ?u s = (r, s')" by (metis prod.exhaust)
  show ?walk if yes: ?yes
  proof -
    have r: "r = Inr b" using yes run by (simp add: userCanAccessInstallation_def)
    obtain n v s1 where n: "page_walk g env token wanted ?u s n v s1" "n \<le> 100"
      "if n = 100 then s' = s1 \<and> r = Inl ErrForgeUnavailable
       else (case page_request g env token v s1 of
             (Inl e, s2) \<Rightarrow> r = Inl e \<and> s' = s2
           | (Inr (ids, next), s2) \<Rightarrow> s' = s2 \<and> (wanted \<in> set ids \<or> next = []) \<and> r = Inr (wanted \<in> set ids))"
      using pages_end [OF run] by blast
    then have "n < 100" using r by (cases "n = 100") auto
    moreover from this obtain ids "next" s2 where "page_request g env token v s1 = (Inr (ids, next), s2)"
      "wanted \<in> set ids \<or> next = []" "b = (wanted \<in> set ids)"
      using n(3) r by (auto split: prod.splits sum.splits)
    ultimately show ?thesis using n(1) by (metis fst_conv)
  qed
  show ?yes if walk: ?walk
  proof -
    obtain n v s1 ids "next" where n: "n < 100" "page_walk g env token wanted ?u s n v s1"
      "fst (page_request g env token v s1) = Inr (ids, next)" "b = (wanted \<in> set ids)"
      "wanted \<in> set ids \<or> next = []" using walk by blast
    obtain k where k: "100 = n + Suc k" using n(1) by (metis add_Suc_right less_iff_Suc_add)
    show ?thesis using n(3-5) pages_walked [OF n(2), of "Suc k"]
      unfolding userCanAccessInstallation_def k
      by (cases "page_request g env token v s1") auto
  qed
qed

text \<open>
  A chain of a hundred pages that does not list the installation and still goes on is
  refused as unavailable, after exactly those pages; no link chain makes the check run on.
\<close>

theorem installation_pages_bounded:
  assumes "page_walk g env token wanted ''/user/installations?per_page=100'' s 100 v s1"
  shows "userCanAccessInstallation g env token wanted s = (Inl ErrForgeUnavailable, s1)"
  using pages_walked [OF assms, of 0] by (simp add: userCanAccessInstallation_def)

definition endless0 :: "time outside" where
  "endless0 = outside0\<lparr>client_Do := (\<lambda>q t. (gh_answer0 ''https://gh/user/installations?per_page=100'', t))\<rparr>"

lemma endless0_page:
  "\<exists>r. gh_answer0 ''https://gh/user/installations?per_page=100'' = Some r \<and> StatusCode r = 200
     \<and> decoded decode_installations [] r = Some [3]
     \<and> parseNext (api_Header r ''Link'') = ''https://gh/page2''"
proof -
  have "Option.bind (gh_answer0 ''https://gh/user/installations?per_page=100'') (\<lambda>r. if StatusCode r = 200 then
     map_option (\<lambda>ids. (ids, parseNext (api_Header r ''Link'')))
       (decoded decode_installations [] r) else None) = Some ([3], ''https://gh/page2'')"
    by code_simp
  then show ?thesis by (auto simp: bind_eq_Some_conv split: if_splits)
qed

lemma endless0_endpoints:
  "url_parse lib0 (endpoint_of lib0 github0 ''/user/installations?per_page=100'') \<noteq> None"
  "url_parse lib0 (endpoint_of lib0 github0 ''https://gh/page2'') \<noteq> None"
  by code_simp+

lemma endless0_walk:
  assumes "url_parse lib0 (endpoint_of lib0 github0 u) \<noteq> None"
  shows "page_walk lib0 endless0 ''t'' 7 u (github0, 0) n (if n = 0 then u else ''https://gh/page2'') (github0, 0)"
  using assms
proof (induction n arbitrary: u)
  case (Suc n)
  have "gh_observe endless0 oper status started (github0, w) = (github0, w)" for oper status started w
    by (simp add: gh_observe_def github0_def)
  then have "page_request lib0 endless0 ''t'' u (github0, 0) = (Inr ([3], ''https://gh/page2''), (github0, 0))"
    using endless0_page Suc.prems
    by (auto simp: requestWithNext_def userAuthorization_def endless0_def outside0_def Let_def)
  from page_walk.turn [OF this _ _ Suc.IH [OF endless0_endpoints(2)]] show ?case by (cases n) simp_all
qed (simp add: page_walk.start)

lemma installation_pages_bounded_witness:
  "fst (userCanAccessInstallation lib0 endless0 ''t'' 7 (github0, 0)) = Inl ErrForgeUnavailable"
  using installation_pages_bounded [of lib0 endless0 "''t''" 7 "(github0, 0)" "''https://gh/page2''" "(github0, 0)"]
    endless0_walk [OF endless0_endpoints(1), of 100] by simp

subsection \<open>The App's own credentials\<close>

text \<open>The cached token, when there is one, was signed by the App's key for ten minutes.\<close>

definition jwt_inv :: "'w outside \<Rightarrow> Authorizer \<Rightarrow> bool" where
  "jwt_inv env a = (appJWT a \<noteq> [] \<longrightarrow>
     (\<exists>t. sign_RS256 env (privateKey a) (claims_at a t) = Some (appJWT a) \<and> jwtExpires a = t + 9 * minute))"

lemma jwt_inv_observe: "gh_observe env operation status started (a, w) = (a', w') \<Longrightarrow> jwt_inv env a' = jwt_inv env a"
  by (auto simp: jwt_inv_def gh_observe_def claims_at_def Let_def split: option.splits prod.splits)

lemma claims_at_jwt [simp]: "claims_at (a\<lparr>appJWT := x, jwtExpires := e\<rparr>) t = claims_at a t"
  by (simp add: claims_at_def)

lemma signedAppJWT_inv:
  "jwt_inv env a \<Longrightarrow> signedAppJWT env (a, w) = (r, (a', w')) \<Longrightarrow> jwt_inv env a'"
  by (auto simp: signedAppJWT_def jwt_inv_def Let_def split: prod.splits if_splits option.splits)

interpretation jwt: authorizer_invariant env "jwt_inv env" for env
  by unfold_locales (auto simp: jwt_inv_observe dest: signedAppJWT_inv)

lemma New_inv: "github_New g env cfg = Inr a \<Longrightarrow> jwt_inv env a"
  by (auto simp: github_New_def bind_result_Inr_iff Let_def jwt_inv_def split: option.splits if_splits)

text \<open>
  The states an authorizer can be in while the server runs. The signing call is a step of its
  own, since other requests may interleave anywhere but inside it: it holds the mutex. The
  world may change at any time.
\<close>

inductive gh_reachable :: "golib \<Rightarrow> 'w outside \<Rightarrow> GitHubConfig \<Rightarrow> 'w gh_state \<Rightarrow> bool" for g env cfg where
  created: "github_New g env cfg = Inr a \<Longrightarrow> gh_reachable g env cfg (a, w)"
| validated: "gh_reachable g env cfg s \<Longrightarrow> github_Validate g env s = (r, s') \<Longrightarrow> gh_reachable g env cfg s'"
| authorized: "gh_reachable g env cfg s \<Longrightarrow> Authorize g env owner repo token s = (r, s') \<Longrightarrow> gh_reachable g env cfg s'"
| signed: "gh_reachable g env cfg s \<Longrightarrow> signedAppJWT env s = (q, s') \<Longrightarrow> gh_reachable g env cfg s'"
| elsewhere: "gh_reachable g env cfg (a, w) \<Longrightarrow> gh_reachable g env cfg (a, w')"

text \<open>What holds of a new authorizer and is kept by every operation holds in every state.\<close>

context authorizer_invariant
begin

lemma reachable_keeps:
  assumes "gh_reachable g env cfg s" and "\<And>a. github_New g env cfg = Inr a \<Longrightarrow> P a"
  shows "P (fst s)"
  using assms(1)
proof (induction rule: gh_reachable.induct)
  case (created a w)
  then show ?case using assms(2) by simp
next
  case (validated s r s')
  then show ?case by (cases s; cases s') (auto dest: Validate_keeps)
next
  case (authorized s owner repo token r s')
  then show ?case by (cases s; cases s') (auto dest: Authorize_keeps)
next
  case (signed s q s')
  then show ?case by (cases s; cases s') (auto dest: sign_keeps)
qed simp

end


definition gh_config0 :: GitHubConfig where
  "gh_config0 = \<lparr>gc_ClientID = ''Iv1'', gc_PrivateKeyPEM = ''key'', gc_AllowedInstallationIDs = [7],
     gc_APIURL = ''https://gh'', gc_Metrics = None\<rparr>"

lemma github_New0: "github_New lib0 outside0 gh_config0 = Inr github0"
proof -
  have "trim_right_chars ''/'' ''https://gh'' = ''https://gh''" "trim_space ''Iv1'' \<noteq> []"
    by code_simp+
  moreover have "url_parse lib0 ''https://gh'' = Some (baseURL github0)" by code_simp
  ultimately show ?thesis
    by (simp add: github_New_def gh_config0_def parsePrivateKey_def outside0_def github0_def empty_url_def
        allowedInstallationIDSet_def)
qed


subsection \<open>Failed answers\<close>

definition rate_limited :: "api_response \<Rightarrow> bool" where
  "rate_limited response = (StatusCode response = 429
     \<or> StatusCode response = 403 \<and> api_Header response ''X-RateLimit-Remaining'' = ''0'')"

lemma mapResponseError_rate_limited:
  "rate_limited response \<Longrightarrow> mapResponseError env response w = retryAfterError env response w"
  by (auto simp: rate_limited_def mapResponseError_def)

text \<open>The delay a rate limit should come with, from the two headers and the time.\<close>

definition reset_delay :: "time \<Rightarrow> int64 option \<Rightarrow> duration" where
  "reset_delay now reset =
     (case reset of
        Some sec \<Rightarrow> if now < unix_seconds sec then min int64_max (unix_seconds sec - now) else minute
      | None \<Rightarrow> minute)"

definition advised_delay :: "time \<Rightarrow> api_response \<Rightarrow> duration" where
  "advised_delay now response =
     (let reset = reset_delay now (parse_int (api_Header response ''X-RateLimit-Reset'')) in
      case parse_int (api_Header response ''Retry-After'') of
        Some n \<Rightarrow> if 0 < n then n * second else reset
      | None \<Rightarrow> reset)"

lemma reset_delay_positive: "0 < reset_delay now reset" "in_int64 (reset_delay now reset)"
  by (auto simp: reset_delay_def int64_defs duration_units split: option.splits)

lemma reset_delay_eq:
  "(if 0 < time_sub (unix_seconds sec) now then time_sub (unix_seconds sec) now else minute)
     = reset_delay now (Some sec)"
  by (simp add: time_sub_pos reset_delay_def) (simp add: time_sub_def int64_defs)

lemma retryAfterError_delay:
  "\<exists>w'. retryAfterError env response w =
     (RetryAfterError ErrRateLimited
        (case parse_int (api_Header response ''Retry-After'') of
           Some n \<Rightarrow> if 0 < n then wrap64 (n * second)
             else reset_delay (fst (clock env w)) (parse_int (api_Header response ''X-RateLimit-Reset''))
         | None \<Rightarrow> reset_delay (fst (clock env w)) (parse_int (api_Header response ''X-RateLimit-Reset''))), w')"
  by (cases "clock env w"; cases "parse_int (api_Header response ''X-RateLimit-Reset'')")
    (simp_all add: retryAfterError_def Let_def reset_delay_eq reset_delay_def [of _ None] split: option.split)

text \<open>
  C36. The error a failed answer becomes is decided by its status and the remaining quota
  alone: it is a rate limit with a delay exactly for 429 and for a 403 that reports no
  remaining requests, and one of the four other errors of the package otherwise.
\<close>

theorem failed_answer_classified:
  "(errors_is (fst (mapResponseError env response w)) ErrRateLimited \<longleftrightarrow> rate_limited response)
   \<and> (errors_as_retry (fst (mapResponseError env response w)) \<noteq> None \<longleftrightarrow> rate_limited response)
   \<and> (fst (mapResponseError env response w) = ErrForbidden \<longleftrightarrow>
        StatusCode response = 403 \<and> \<not> rate_limited response)
   \<and> (fst (mapResponseError env response w) = ErrForgeNotFound \<longleftrightarrow> StatusCode response = 404)
   \<and> (fst (mapResponseError env response w) = ErrForgeUnavailable \<longleftrightarrow> 500 \<le> StatusCode response)
   \<and> (fst (mapResponseError env response w) = ErrUnauthenticated \<longleftrightarrow>
        StatusCode response < 500 \<and> StatusCode response \<notin> {403, 404, 429})"
proof -
  obtain d w' where retry: "retryAfterError env response w = (RetryAfterError ErrRateLimited d, w')"
    using retryAfterError_delay [of env response w] by auto
  show ?thesis
    by (cases "StatusCode response = 401"; cases "StatusCode response = 403"; cases "StatusCode response = 404";
        cases "StatusCode response = 429"; cases "500 \<le> StatusCode response")
      (auto simp: mapResponseError_def rate_limited_def retry)
qed

text \<open>
  A rate-limited client is told a delay greater than zero: the seconds of Retry-After
  when GitHub gives a positive number that a duration can hold, else the time left until the
  reset of the quota (at most the greatest duration) when that is ahead, else a minute.
\<close>

theorem rate_limit_delay:
  assumes "rate_limited response"
    and "\<And>n. parse_int (api_Header response ''Retry-After'') = Some n \<Longrightarrow> n \<le> 9223372036"
  shows "fst (mapResponseError env response w)
      = RetryAfterError ErrRateLimited (advised_delay (fst (clock env w)) response)
    \<and> 0 < advised_delay (fst (clock env w)) response"
proof -
  have "wrap64 (n * second) = n * second" "0 < n * second"
    if "parse_int (api_Header response ''Retry-After'') = Some n" "0 < n" for n
  proof -
    have "in_int64 (n * second)" using assms(2) [OF that(1)] that(2) by (simp add: int64_defs second_def)
    then show "wrap64 (n * second) = n * second" by simp
    show "0 < n * second" using that(2) by (simp add: second_def)
  qed
  then show ?thesis
    using retryAfterError_delay [of env response w] reset_delay_positive(1)
    by (auto simp: mapResponseError_rate_limited [OF assms(1)] advised_delay_def Let_def split: option.splits)
qed

text \<open>Seconds that a duration cannot hold wrap, and the delay may be negative.\<close>

definition limited0 :: "string \<Rightarrow> api_response" where
  "limited0 seconds = \<lparr>StatusCode = 429, api_Header = (\<lambda>h. if h = ''Retry-After'' then seconds else []),
     api_Body = text_stream []\<rparr>"

lemma rate_limit_delay_witness:
  "fst (mapResponseError outside0 (limited0 ''120'') 5) = RetryAfterError ErrRateLimited (120 * second)"
proof -
  have p: "parse_int (api_Header (limited0 ''120'') ''Retry-After'') = Some 120" by code_simp
  have r: "rate_limited (limited0 ''120'')" by (simp add: rate_limited_def limited0_def)
  show ?thesis using rate_limit_delay [OF r, of outside0 5] p by (simp add: advised_delay_def)
qed


subsection \<open>The Link header\<close>

type_synonym page_link = "string \<times> string"

definition render_link :: "page_link \<Rightarrow> string" where
  "render_link l = ''<'' @ fst l @ ''>; rel=\"'' @ snd l @ ''\"''"

text \<open>RFC 8288 as GitHub writes it: the links in one header, with a comma and a blank.\<close>

definition render_links :: "page_link list \<Rightarrow> string" where
  "render_links ls = join_with (CHR '','')
     (case map render_link ls of [] \<Rightarrow> [] | p # ps \<Rightarrow> p # map ((#) (CHR '' '')) ps)"

definition link_ok :: "page_link \<Rightarrow> bool" where
  "link_ok l = (snd l \<in> {''next'', ''prev'', ''first'', ''last''}
     \<and> set (fst l) \<inter> {CHR '','', CHR '';'', CHR ''<'', CHR ''>''} = {})"

lemma trim_brackets:
  assumes "CHR ''<'' \<notin> set u" "CHR ''>'' \<notin> set u"
  shows "trim_chars ''<>'' (''<'' @ u @ ''>'') = u"
proof (cases u rule: rev_cases)
  case (snoc v c)
  then have nonempty: "u \<noteq> []" by simp
  have "trim_left_chars ''<>'' (''<'' @ u @ ''>'') = u @ ''>''"
    using assms nonempty by (cases u) (auto simp: trim_left_chars_def)
  moreover have "trim_right_chars ''<>'' (u @ ''>'') = trim_right_chars ''<>'' u" by (simp add: trim_right_snoc)
  moreover have "trim_right_chars ''<>'' u = u" using assms snoc by (auto simp: trim_right_snoc)
  ultimately show ?thesis by (simp only: trim_chars_def)
qed (simp add: trim_chars_def trim_left_chars_def)

lemma render_link_segments:
  assumes "link_ok l"
  shows "split_on (CHR '';'') (render_link l) = [''<'' @ fst l @ ''>'', '' rel=\"'' @ snd l @ ''\"'']"
    "split_on (CHR '';'') (CHR '' '' # render_link l) = [CHR '' '' # ''<'' @ fst l @ ''>'', '' rel=\"'' @ snd l @ ''\"'']"
    "CHR '','' \<notin> set (render_link l)"
    "contains ('' rel=\"'' @ snd l @ ''\"'') ''rel=\"next\"'' \<longleftrightarrow> snd l = ''next''"
proof -
  have rel: "CHR '';'' \<notin> set ('' rel=\"'' @ snd l @ ''\"'')" "CHR '','' \<notin> set ('' rel=\"'' @ snd l @ ''\"'')"
    using assms by (auto simp: link_ok_def)
  have u: "CHR '';'' \<notin> set (''<'' @ fst l @ ''>'')" "CHR '';'' \<notin> set (CHR '' '' # ''<'' @ fst l @ ''>'')"
    using assms by (auto simp: link_ok_def)
  show "split_on (CHR '';'') (render_link l) = [''<'' @ fst l @ ''>'', '' rel=\"'' @ snd l @ ''\"'']"
    using split_on_append [OF u(1)] rel(1) by (simp add: render_link_def split_on_no_sep)
  show "split_on (CHR '';'') (CHR '' '' # render_link l) = [CHR '' '' # ''<'' @ fst l @ ''>'', '' rel=\"'' @ snd l @ ''\"'']"
    using split_on_append [OF u(2)] rel(1) by (simp add: render_link_def split_on_no_sep)
  show "CHR '','' \<notin> set (render_link l)" using rel(2) assms by (auto simp: render_link_def link_ok_def)
  have "snd l = ''next'' \<or> snd l = ''prev'' \<or> snd l = ''first'' \<or> snd l = ''last''"
    using assms by (auto simp: link_ok_def)
  then show "contains ('' rel=\"'' @ snd l @ ''\"'') ''rel=\"next\"'' \<longleftrightarrow> snd l = ''next''"
    by (elim disjE) (simp_all add: has_prefix_def)
qed

lemma bracketed_trim:
  assumes "link_ok l"
  shows "trim_chars ''<>'' (trim_space (''<'' @ fst l @ ''>'')) = fst l"
    "trim_chars ''<>'' (trim_space (CHR '' '' # ''<'' @ fst l @ ''>'')) = fst l"
proof -
  have p: "plain (hd (''<'' @ fst l @ ''>''))" "plain (last (''<'' @ fst l @ ''>''))"
    by (simp_all add: plain_def)
  have t: "trim_chars ''<>'' (''<'' @ fst l @ ''>'') = fst l"
    using assms by (intro trim_brackets) (auto simp: link_ok_def)
  show "trim_chars ''<>'' (trim_space (''<'' @ fst l @ ''>'')) = fst l"
    using t trim_space_plain [OF _ p] by simp
  show "trim_chars ''<>'' (trim_space (CHR '' '' # ''<'' @ fst l @ ''>'')) = fst l"
    using t trim_space_blank_plain [OF _ p] by simp
qed

definition next_target :: "page_link list \<Rightarrow> string" where
  "next_target ls = (case find (\<lambda>l. snd l = ''next'') ls of None \<Rightarrow> [] | Some l \<Rightarrow> fst l)"

lemma parse_next_part:
  assumes "link_ok l"
  shows "parse_next_parts (render_link l # parts)
      = (if snd l = ''next'' then fst l else parse_next_parts parts)"
    "parse_next_parts ((CHR '' '' # render_link l) # parts)
      = (if snd l = ''next'' then fst l else parse_next_parts parts)"
  using render_link_segments [OF assms] bracketed_trim [OF assms]
  by (simp_all only: parse_next_parts.simps Let_def list.size nth_Cons_Suc nth_Cons_0 list.sel One_nat_def)
    simp_all

declare parse_next_parts.simps(2) [simp del]

lemma parse_next_blanked:
  "list_all link_ok ls \<Longrightarrow> parse_next_parts (map ((#) (CHR '' '')) (map render_link ls)) = next_target ls"
  by (induction ls) (simp_all add: parse_next_part(2) next_target_def)

text \<open>
  C37. The next page is found in any Link header GitHub renders: the target of the first link
  with relation next, whatever other links are there, and nothing when there is none.
\<close>

theorem next_page_found:
  assumes "list_all link_ok ls"
  shows "parseNext (render_links ls) = next_target ls"
proof (cases ls)
  case Nil
  then show ?thesis
    by (simp add: parseNext_def render_links_def next_target_def parse_next_parts.simps)
next
  case (Cons l rest)
  let ?parts = "render_link l # map ((#) (CHR '' '')) (map render_link rest)"
  have "split_on (CHR '','') (render_links ls) = ?parts"
  proof -
    have "\<forall>m\<in>set ls. CHR '','' \<notin> set (render_link m)"
      using assms render_link_segments(3) by (simp add: list_all_iff)
    then have "CHR '','' \<notin> set s" if "s \<in> set ?parts" for s
      using that Cons by auto
    then show ?thesis using Cons split_on_join [of ?parts] by (simp add: render_links_def)
  qed
  then show ?thesis
    using assms Cons parse_next_part(1) [of l] parse_next_blanked [of rest]
    by (simp add: parseNext_def next_target_def)
qed

lemma next_page_found_witness:
  "parseNext (render_links [(''https://api/x?page=1'', ''prev''), (''https://api/x?page=3'', ''next'')])
     = ''https://api/x?page=3''"
  using next_page_found [of "[(''https://api/x?page=1'', ''prev''), (''https://api/x?page=3'', ''next'')]"]
  by (simp add: link_ok_def next_target_def)

subsection \<open>The allowlist and the startup check\<close>

lemma allowed_loop_exact:
  "allowed_loop allowed ids = Inr s \<longleftrightarrow>
     distinct ids \<and> (\<forall>i\<in>set ids. 0 < i) \<and> set ids \<inter> allowed = {} \<and> s = allowed \<union> set ids"
  by (induction ids arbitrary: allowed) auto

text \<open>
  The allowlist is built exactly from nonempty lists of distinct positive IDs, and then
  contains just those IDs.
\<close>

theorem allowlist_exact:
  "allowedInstallationIDSet ids = Inr s \<longleftrightarrow>
     ids \<noteq> [] \<and> distinct ids \<and> (\<forall>i\<in>set ids. 0 < i) \<and> s = set ids"
  by (auto simp: allowedInstallationIDSet_def allowed_loop_exact)

lemma allowlist_exact_witness: "allowedInstallationIDSet [7, 9] = Inr {7, 9}"
  using allowlist_exact [of "[7, 9]" "{7, 9}"] by simp

lemma New_settings:
  assumes "github_New g env cfg = Inr a"
  shows "clientID a = gc_ClientID cfg" "allowedInstallationIDs a = set (gc_AllowedInstallationIDs cfg)"
    "allowedInstallationIDList a = gc_AllowedInstallationIDs cfg"
    "url_parse g (trim_right_chars ''/'' (if gc_APIURL cfg = [] then defaultAPIURL else gc_APIURL cfg)) = Some (baseURL a)"
    "gh_metrics a = gc_Metrics cfg"
  using assms
  by (auto simp: github_New_def bind_result_Inr_iff Let_def allowedInstallationIDSet_def allowed_loop_exact
      split: option.splits if_splits)

lemma validate_installations_recorded:
  assumes "validate_installations g (recording env) ids (a, (w, l)) = (Inr (), (a', (w', l')))"
  shows "\<exists>xs. l' = l @ xs \<and> length xs = length ids \<and> (\<forall>k < length ids.
      (\<exists>jwt. fst (xs ! k) = sent_to g a (''/app/installations/'' @ format_int (ids ! k)) jwt)
      \<and> (\<exists>ins. replies decode_allowed_installation installation_zero (xs ! k) ins
          \<and> ins_ID ins = ids ! k \<and> (ins_ClientID ins = [] \<or> ins_ClientID ins = clientID a)))"
  using assms
proof (induction ids arbitrary: a w l)
  case (Cons i ids)
  let ?p = "''/app/installations/'' @ format_int i"
  obtain q b w1 l1 where q: "request g (recording env) ?p ''installation_validation''
      (appAuthorization (recording env)) decode_allowed_installation installation_zero (a, (w, l))
      = (q, (b, (w1, l1)))" by (metis prod.exhaust)
  from Cons.prems q obtain ins where ins: "q = Inr ins" "ins_ID ins = i"
    "ins_ClientID ins = [] \<or> ins_ClientID ins = clientID b"
    "validate_installations g (recording env) ids (b, (w1, l1)) = (Inr (), (a', (w', l')))"
    by (auto split: sum.splits if_splits)
  obtain x jwt where x: "l1 = l @ [x]" "fst x = sent_to g a ?p jwt"
    "replies decode_allowed_installation installation_zero x ins" and ab: "same_config a b"
    using app_request [OF q] ins(1) by force
  have same: "sent_to g b t j = sent_to g a t j" "clientID b = clientID a" for t j
    using same_config_uses [OF ab] by (simp_all add: sent_to_def)
  obtain ys where ys: "l' = l1 @ ys" "length ys = length ids" "\<forall>k < length ids.
      (\<exists>jwt. fst (ys ! k) = sent_to g a (''/app/installations/'' @ format_int (ids ! k)) jwt)
      \<and> (\<exists>ins. replies decode_allowed_installation installation_zero (ys ! k) ins
          \<and> ins_ID ins = ids ! k \<and> (ins_ClientID ins = [] \<or> ins_ClientID ins = clientID a))"
    using Cons.IH [OF ins(4)] unfolding same by blast
  show ?case
    using x ys ins(2,3) same(2)
    by (intro exI [of _ "x # ys"]) (auto simp: nth_Cons split: nat.splits)
qed simp



subsection \<open>Recording changes nothing\<close>

text \<open>Without the list of exchanges, a run against \<open>recording env\<close> is the run against \<open>env\<close>.\<close>

fun erase :: "'r \<times> ('a \<times> ('w \<times> exchange list)) \<Rightarrow> 'r \<times> ('a \<times> 'w)" where
  "erase (r, (a, (w, l))) = (r, (a, w))"

lemma erase_parts: "erase s = (fst s, (fst (snd s), fst (snd (snd s))))"
  by (cases s rule: erase.cases) simp

lemma erase_retry:
  "fst (retryAfterError (recording env) response (w, l)) = fst (retryAfterError env response w)"
  "fst (snd (retryAfterError (recording env) response (w, l))) = snd (retryAfterError env response w)"
  by (auto simp: retryAfterError_def Let_def split: option.splits prod.splits)

lemma erase_error:
  "fst (mapResponseError (recording env) response (w, l)) = fst (mapResponseError env response w)"
  "fst (snd (mapResponseError (recording env) response (w, l))) = snd (mapResponseError env response w)"
  by (simp_all add: mapResponseError_def Let_def erase_retry)

lemma erase_observe:
  "fst (gh_observe (recording env) operation status started (a, (w, l))) = fst (gh_observe env operation status started (a, w))"
  "fst (snd (gh_observe (recording env) operation status started (a, (w, l)))) = snd (gh_observe env operation status started (a, w))"
  by (auto simp: gh_observe_def Let_def split: option.splits prod.splits)

lemma erase_app: "erase (appAuthorization (recording env) (a, (w, l))) = appAuthorization env (a, w)"
  by (auto simp: appAuthorization_def signedAppJWT_def Let_def split: prod.splits option.splits)

lemma erase_user: "erase (userAuthorization token (a, (w, l))) = userAuthorization token (a, w)"
  by (simp add: userAuthorization_def)

lemma erase_requestWithNext:
  assumes "erase (auth' (a, (w, l))) = auth (a, w)"
  shows "erase (requestWithNext g (recording env) target operation auth' dec zero (a, (w, l)))
    = requestWithNext g env target operation auth dec zero (a, w)"
proof -
  obtain v b w1 l1 where v: "auth' (a, (w, l)) = (v, (b, (w1, l1)))" by (metis prod.exhaust)
  with assms have v': "auth (a, w) = (v, (b, w1))" by simp
  show ?thesis
    using erase_error [of env] erase_observe [of env]
    by (auto simp: requestWithNext_def v v' Let_def erase_parts prod_eq_iff split: option.splits sum.splits prod.splits)
qed

lemma erase_request:
  assumes "erase (auth' (a, (w, l))) = auth (a, w)"
  shows "erase (request g (recording env) target operation auth' dec zero (a, (w, l)))
    = request g env target operation auth dec zero (a, w)"
  using erase_requestWithNext [of auth' a w l auth, OF assms, of g env target operation dec zero]
  by (auto simp: request_def split: sum.splits prod.splits)

lemma erase_app_request:
  "erase (request g (recording env) target operation (appAuthorization (recording env)) dec zero (a, (w, l)))
    = request g env target operation (appAuthorization env) dec zero (a, w)"
  by (rule erase_request) (rule erase_app)

lemma erase_user_request:
  "erase (request g (recording env) target operation (userAuthorization token) dec zero (a, (w, l)))
    = request g env target operation (userAuthorization token) dec zero (a, w)"
  by (rule erase_request) (rule erase_user)

lemma erase_page_request:
  "erase (page_request g (recording env) token u (a, (w, l))) = page_request g env token u (a, w)"
  by (rule erase_requestWithNext) (rule erase_user)

lemma erase_pages:
  "erase (installation_pages g (recording env) token wanted pages u (a, (w, l)))
    = installation_pages g env token wanted pages u (a, w)"
proof (induction pages arbitrary: u a w l)
  case (Suc pages)
  show ?case
    using erase_page_request [of g env u token a w l] Suc.IH
    by (auto split: sum.splits prod.splits)
qed simp

text \<open>
  Keeping the list of exchanges is invisible: the recorded authorization is the real one,
  so what the other properties read from the list holds of the server's own calls.
\<close>

theorem authorize_recording_transparent:
  "erase (Authorize g (recording env) owner repo token (a, (w, l))) = Authorize g env owner repo token (a, w)"
proof -
  let ?p = "installation_path owner repo"
  obtain q b w1 l1 where q: "request g (recording env) ?p ''repository_installation''
      (appAuthorization (recording env)) decode_installation installation_zero (a, (w, l)) = (q, (b, (w1, l1)))"
    by (metis prod.exhaust)
  obtain m c w2 l2 where m: "userCanAccessInstallation g (recording env) token (ins_ID (projr q)) (b, (w1, l1))
      = (m, (c, (w2, l2)))" by (metis prod.exhaust)
  obtain s d w3 l3 where s: "request g (recording env) (repository_path ?p) ''repository''
      (userAuthorization token) decode_repository repository_zero (c, (w2, l2)) = (s, (d, (w3, l3)))"
    by (metis prod.exhaust)
  note erased = erase_app_request [of g env ?p "''repository_installation''" decode_installation
      installation_zero a w l, unfolded q, symmetric]
    erase_pages [of g env token "ins_ID (projr q)" 100 "''/user/installations?per_page=100''" b w1 l1,
      folded userCanAccessInstallation_def, unfolded m, symmetric]
    erase_user_request [of g env "repository_path ?p" "''repository''" token decode_repository
      repository_zero c w2 l2, unfolded s, symmetric]
  show ?thesis
    using q m s erased
    by (auto simp: Authorize_def resolve_repository_def Let_def split: sum.splits)
qed

end
