(* ===== verification/LFS_Handler.thy ===== *)
theory LFS_Handler
  imports LFS_Pool Github
begin

section \<open>Package lfs: the handlers and the middleware\<close>

text \<open>
  \<^verbatim>\<open>batch\<close>, \<^verbatim>\<open>verify\<close>, \<^verbatim>\<open>authorize\<close>, the error writers and \<^verbatim>\<open>Middleware\<close> of
  \<^verbatim>\<open>internal/lfs/handler.go\<close>. A handler returns the calls it makes on its ResponseWriter,
  together with the state the server keeps between requests: the authorization cache, the
  counters and the outside world. The authorizer and the object store are the interfaces of
  the packages forge and storage.
\<close>

subsection \<open>State\<close>

record 'w lfs_env =
  env_now :: "'w \<Rightarrow> time"
  env_authorize :: "string \<Rightarrow> string \<Rightarrow> string \<Rightarrow> 'w \<Rightarrow> (err, Authorization) result \<times> 'w"
  env_views :: "'w \<Rightarrow> nat \<Rightarrow> ObjectStore"

record 'w server =
  sv_cache :: Cache
  sv_metrics :: "Metrics option"
  sv_world :: 'w

subsection \<open>Writing\<close>

type_synonym ops = "payload write_op list"

definition writeJSON :: "int \<Rightarrow> payload \<Rightarrow> ops" where
  "writeJSON status p = [SetHeader ''Content-Type'' MediaType, WriteHeader status, Write p]"

definition writeError :: "string \<Rightarrow> int \<Rightarrow> string \<Rightarrow> ops" where
  "writeError requestID status message =
     writeJSON status (ErrorPayload \<lparr>er_Message = message, er_RequestID = requestID\<rparr>)"

definition writeAuthenticationError :: "string \<Rightarrow> string \<Rightarrow> ops" where
  "writeAuthenticationError requestID message =
     SetHeader ''LFS-Authenticate'' ''Basic realm=\"GOLFS\"'' # writeError requestID 401 message"

definition retry_seconds :: "err \<Rightarrow> int" where
  "retry_seconds e =
     (let delay = (case errors_as_retry e of Some d \<Rightarrow> if 0 < d then d else minute | None \<Rightarrow> minute)
      in max 1 (quot (round_duration delay second) second))"

definition writeForgeError :: "string \<Rightarrow> err \<Rightarrow> ops" where
  "writeForgeError requestID e =
     (if errors_as_retry e \<noteq> None \<or> errors_is e ErrRateLimited then
        SetHeader ''Retry-After'' (format_int (retry_seconds e))
        # writeError requestID 429 ''GitHub rate limit exceeded''
      else if errors_is e ErrUnauthenticated then
        writeAuthenticationError requestID ''credentials are invalid or expired''
      else if errors_is e ErrForgeNotFound \<or> errors_is e ErrForbidden then
        writeError requestID 404 ''repository not found''
      else writeError requestID 503 ''GitHub is temporarily unavailable'')"

subsection \<open>Authorization\<close>

definition observeAuth :: "string \<Rightarrow> Metrics option \<Rightarrow> Metrics option" where
  "observeAuth label = map_option (\<lambda>m. m\<lparr>AuthCache := inc [label] (AuthCache m)\<rparr>)"

definition lfs_authorize ::
    "golib \<Rightarrow> 'w lfs_env \<Rightarrow> string \<Rightarrow> string \<Rightarrow> string \<Rightarrow> 'w server \<Rightarrow> (err, Authorization) result \<times> 'w server" where
  "lfs_authorize g env owner repo token s =
     (case cache_Get g (sv_cache s) (env_now env (sv_world s)) token owner repo of
        (Some auth, c) \<Rightarrow> (Inr auth, s\<lparr>sv_cache := c, sv_metrics := observeAuth ''hit'' (sv_metrics s)\<rparr>)
      | (None, c) \<Rightarrow>
          (let s1 = s\<lparr>sv_cache := c, sv_metrics := observeAuth ''miss'' (sv_metrics s)\<rparr> in
           case env_authorize env owner repo token (sv_world s1) of
             (Inl e, w) \<Rightarrow> (Inl e, s1\<lparr>sv_world := w\<rparr>)
           | (Inr auth, w) \<Rightarrow>
               (Inr auth, s1\<lparr>sv_world := w,
                  sv_cache := cache_Put g c (env_now env w) token owner repo auth\<rparr>)))"

subsection \<open>The two endpoints\<close>

definition decode_status :: "err \<Rightarrow> int" where
  "decode_status e =
     (if errors_as_max_bytes e then 413 else if errors_is e ErrUnsupportedMediaType then 415 else 400)"

definition batch ::
    "golib \<Rightarrow> 'w lfs_env \<Rightarrow> Handler \<Rightarrow> string \<Rightarrow> http_request \<Rightarrow> 'w server \<Rightarrow> ops \<times> 'w server" where
  "batch g env h requestID r s =
     (if \<not> acceptsLFSJSON g r then (writeError requestID 406 ''response media type is not acceptable'', s)
      else case readJSON g decode_batchRequest batchRequest_zero r of
        Inl e \<Rightarrow> (writeError requestID (decode_status e) (err_text (lib_error_text g) e), s)
      | Inr input \<Rightarrow>
          (case validateBatch g h input of
             Some e \<Rightarrow> (writeError requestID 422 (err_text (lib_error_text g) e), s)
           | None \<Rightarrow>
               (case basicToken r of
                  None \<Rightarrow> (writeAuthenticationError requestID ''Basic credentials are required'', s)
                | Some (token, originalAuthorization) \<Rightarrow>
                    (case lfs_authorize g env (req_owner r) (req_repository r) token s of
                       (Inl e, s1) \<Rightarrow> (writeForgeError requestID e, s1)
                     | (Inr auth, s1) \<Rightarrow>
                         if br_Operation input = ''download'' \<and> Permission auth < PermissionRead then
                           (writeError requestID 404 ''repository not found'', s1)
                         else if br_Operation input = ''upload'' \<and> Permission auth < PermissionWrite then
                           (writeError requestID 403 ''repository is read-only'', s1)
                         else
                           (let (objects, m) = processObjects h (env_views env (sv_world s1)) (br_Operation input)
                                  (RepositoryID auth) (req_owner r) (req_repository r) originalAuthorization
                                  (br_Objects input) (sv_metrics s1)
                            in (writeJSON 200 (BatchPayload \<lparr>bs_Transfer = ''basic'', bs_HashAlgo = ''sha256'',
                                  bs_Objects = objects\<rparr>), s1\<lparr>sv_metrics := m\<rparr>))))))"

definition observeVerify :: "string \<Rightarrow> 'w server \<Rightarrow> 'w server" where
  "observeVerify label s = s\<lparr>sv_metrics := map_option (\<lambda>m. m\<lparr>VerifyResults := inc [label] (VerifyResults m)\<rparr>) (sv_metrics s)\<rparr>"

definition verify ::
    "golib \<Rightarrow> 'w lfs_env \<Rightarrow> Handler \<Rightarrow> string \<Rightarrow> http_request \<Rightarrow> 'w server \<Rightarrow> ops \<times> 'w server" where
  "verify g env h requestID r s =
     (if \<not> acceptsLFSJSON g r then (writeError requestID 406 ''response media type is not acceptable'', s)
      else case readJSON g decode_requestObject requestObject_zero r of
        Inl e \<Rightarrow> (writeError requestID (decode_status e) (err_text (lib_error_text g) e), s)
      | Inr input \<Rightarrow>
          (case validateObject g h input of
             Some e \<Rightarrow> (writeError requestID 422 (err_text (lib_error_text g) e), s)
           | None \<Rightarrow>
               (case basicToken r of
                  None \<Rightarrow> (writeAuthenticationError requestID ''Basic credentials are required'', s)
                | Some (token, _) \<Rightarrow>
                    (case lfs_authorize g env (req_owner r) (req_repository r) token s of
                       (Inl e, s1) \<Rightarrow> (writeForgeError requestID e, s1)
                     | (Inr auth, s1) \<Rightarrow>
                         if Permission auth < PermissionWrite then
                           (writeError requestID 403 ''repository is read-only'', s1)
                         else
                           (case store_Head (env_views env (sv_world s1) 0) (RepositoryID auth) (ro_OID input) of
                              Inl e \<Rightarrow>
                                if errors_is e ErrStorageNotFound then
                                  (writeError requestID 404 ''object not found'', observeVerify ''not_found'' s1)
                                else (writeError requestID 503 storage_down, observeVerify ''unavailable'' s1)
                            | Inr stored \<Rightarrow>
                                if \<not> matches stored input then
                                  (writeError requestID 422 ''uploaded object size does not match requested size'',
                                   observeVerify ''mismatch'' s1)
                                else (writeJSON 200 (VerifyPayload (ro_OID input)), observeVerify ''success'' s1))))))"

subsection \<open>Request IDs and panics\<close>

fun base36_text :: "nat \<Rightarrow> string" where
  "base36_text n =
     (if n < 36 then [''0123456789abcdefghijklmnopqrstuvwxyz'' ! n]
      else base36_text (n div 36) @ [''0123456789abcdefghijklmnopqrstuvwxyz'' ! (n mod 36)])"

declare base36_text.simps [simp del]

definition newRequestID :: "nat list option \<Rightarrow> time \<Rightarrow> string" where
  "newRequestID random now =
     (case random of
        None \<Rightarrow> (let n = wrap64 now in if n < 0 then CHR ''-'' # base36_text (nat (- n)) else base36_text (nat n))
      | Some bytes \<Rightarrow> hex_encode bytes)"

definition RequestID :: "string option \<Rightarrow> string" where
  "RequestID ctx = (case ctx of None \<Rightarrow> [] | Some requestID \<Rightarrow> requestID)"

text \<open>
  \<open>handler\<close> gives, for a request context, the calls the wrapped handler makes before it returns
  or panics.
\<close>

definition Middleware :: "string \<Rightarrow> (string option \<Rightarrow> ops \<times> bool) \<Rightarrow> ops" where
  "Middleware requestID handler =
     (let (ops, panics) = handler (Some requestID) in
      SetHeader ''X-Request-ID'' requestID # ops
      @ (if panics then
           [SetHeader ''Content-Type'' MediaType, WriteHeader 500,
            Write (ErrorPayload \<lparr>er_Message = ''internal server error'', er_RequestID = requestID\<rparr>)]
         else []))"

subsection \<open>What a client receives\<close>

text \<open>
  A complete answer: a status, the protocol's content type and one payload, which is an error
  with the request's ID unless the status is 200.
\<close>

definition complete_answer :: "string \<Rightarrow> ops \<Rightarrow> bool" where
  "complete_answer requestID ops =
     (let w = run_writes ops empty_response in
      sent_header w ''Content-Type'' = Some MediaType \<and> sent w \<noteq> None \<and> length (body w) = 1
      \<and> final_status w \<in> {200, 400, 401, 403, 404, 406, 413, 415, 422, 429, 503}
      \<and> (final_status w = 200 \<longleftrightarrow> (\<forall>e. body w \<noteq> [ErrorPayload e]))
      \<and> (\<forall>e. body w = [ErrorPayload e] \<longrightarrow> er_RequestID e = requestID))"

lemmas write_defs = writeJSON_def writeError_def writeAuthenticationError_def writeForgeError_def
lemmas run_defs = empty_response_def final_status_def sent_header_def

lemma status_simps [simp]:
  "final_status (run_writes (writeJSON c p) empty_response) = c"
  "final_status (run_writes (writeError i c msg) empty_response) = c"
  "final_status (run_writes (writeAuthenticationError i msg) empty_response) = 401"
  by (simp_all add: write_defs run_defs)

lemma body_simps [simp]:
  "body (run_writes (writeJSON c p) empty_response) = [p]"
  "body (run_writes (writeError i c msg) empty_response) = [ErrorPayload \<lparr>er_Message = msg, er_RequestID = i\<rparr>]"
  by (simp_all add: write_defs run_defs)

definition forge_status :: "err \<Rightarrow> int" where
  "forge_status e =
     (if errors_as_retry e \<noteq> None \<or> errors_is e ErrRateLimited then 429
      else if errors_is e ErrUnauthenticated then 401
      else if errors_is e ErrForgeNotFound \<or> errors_is e ErrForbidden then 404 else 503)"

lemma forge_status_not_ok [simp]: "forge_status e \<noteq> 200"
  by (simp add: forge_status_def)

lemma forge_status_simp [simp]:
  "final_status (run_writes (writeForgeError i e) empty_response) = forge_status e"
  by (simp add: write_defs run_defs forge_status_def)

lemma complete_error: "c \<in> {400, 401, 403, 404, 406, 413, 415, 422, 429, 503} \<Longrightarrow> complete_answer i (writeError i c msg)"
  by (simp add: complete_answer_def write_defs run_defs) auto

lemma complete_other:
  "complete_answer i (writeAuthenticationError i msg)" "complete_answer i (writeForgeError i e)"
  "complete_answer i (writeJSON 200 (BatchPayload b))" "complete_answer i (writeJSON 200 (VerifyPayload v))"
  by (simp_all add: complete_answer_def write_defs run_defs)

lemma decode_status_simps [simp]: "decode_status e \<noteq> 200" "complete_answer i (writeError i (decode_status e) msg)"
  by (simp_all add: decode_status_def complete_error)

lemma batch_complete: "complete_answer i (fst (batch g env h i r s))"
  by (auto simp: batch_def Let_def complete_error complete_other split: sum.split option.split prod.split)

lemma verify_complete: "complete_answer i (fst (verify g env h i r s))"
  by (auto simp: verify_def Let_def complete_error complete_other split: sum.split option.split prod.split)

text \<open>
  Both endpoints always answer completely: one status, the Git LFS content type, one
  payload; every status but 200 comes with an error message that carries the request's ID.
\<close>

theorem answers_complete:
  "complete_answer i (fst (batch g env h i r s)) \<and> complete_answer i (fst (verify g env h i r s))"
  using batch_complete verify_complete by blast

text \<open>What a request has to be before anything is looked up.\<close>

definition batch_admissible :: "golib \<Rightarrow> Handler \<Rightarrow> http_request \<Rightarrow> batchRequest \<Rightarrow> string \<Rightarrow> bool" where
  "batch_admissible g h r input token =
     (acceptsLFSJSON g r \<and> readJSON g decode_batchRequest batchRequest_zero r = Inr input
      \<and> validateBatch g h input = None \<and> basicToken r = Some (token, req_Header r ''Authorization''))"

definition sufficient :: "batchRequest \<Rightarrow> Authorization \<Rightarrow> bool" where
  "sufficient input auth =
     (if br_Operation input = ''upload'' then Permission auth = PermissionWrite
      else Permission auth \<noteq> PermissionNone)"

lemma basicToken_header: "basicToken r = Some (t, orig) \<Longrightarrow> orig = req_Header r ''Authorization''"
  by (auto simp: basicToken_def split: option.splits if_splits)

lemma validated_operation:
  "validateBatch g h input = None \<Longrightarrow> br_Operation input = ''upload'' \<or> br_Operation input = ''download''"
  by (auto simp: validateBatch_def split: if_splits)

text \<open>The one way to a granted batch.\<close>

lemma batch_granted:
  assumes "batch_admissible g h r input token"
    and "lfs_authorize g env (req_owner r) (req_repository r) token s = (Inr auth, s1)"
    and "sufficient input auth"
  shows "fst (batch g env h i r s) = writeJSON 200 (BatchPayload \<lparr>bs_Transfer = ''basic'', bs_HashAlgo = ''sha256'',
      bs_Objects = fst (processObjects h (env_views env (sv_world s1)) (br_Operation input) (RepositoryID auth)
        (req_owner r) (req_repository r) (req_Header r ''Authorization'') (br_Objects input) (sv_metrics s1))\<rparr>)"
  using assms validated_operation [of g h input]
  by (auto simp: batch_def batch_admissible_def sufficient_def Let_def split: prod.split)

lemma batch_granted_metrics:
  assumes "batch_admissible g h r input token"
    and "lfs_authorize g env (req_owner r) (req_repository r) token s = (Inr auth, s1)" and "sufficient input auth"
  shows "snd (batch g env h i r s) = s1\<lparr>sv_metrics := snd (processObjects h (env_views env (sv_world s1))
    (br_Operation input) (RepositoryID auth) (req_owner r) (req_repository r) (req_Header r ''Authorization'')
    (br_Objects input) (sv_metrics s1))\<rparr>"
  using assms validated_operation [of g h input]
  by (auto simp: batch_def batch_admissible_def sufficient_def Let_def split: prod.splits if_splits)

lemma batch_granted_world:
  assumes "batch_admissible g h r input token"
    and "lfs_authorize g env (req_owner r) (req_repository r) token s = (Inr auth, s1)"
    and "sufficient input auth" and "batch g env h i r s = (ops, s')"
  shows "sv_world s' = sv_world s1"
  using batch_granted_metrics [OF assms(1-3), of i] assms(4) by simp

lemma batch_granted_state:
  assumes "batch_admissible g h r input token"
    and "lfs_authorize g env (req_owner r) (req_repository r) token s = (Inr auth, s1)"
    and "sufficient input auth" and "batch g env h i r s = (ops, s')"
  shows "\<exists>m. s' = s1\<lparr>sv_metrics := m\<rparr>"
  using batch_granted_metrics [OF assms(1-3), of i] assms(4) by auto

text \<open>Each object of a granted answer is what processing the requested object alone gives.\<close>

lemma batch_granted_object:
  assumes "batch_admissible g h r input token"
    and "lfs_authorize g env (req_owner r) (req_repository r) token s = (Inr auth, s1)" and "sufficient input auth"
    and "body (run_writes (fst (batch g env h i r s)) empty_response) = [BatchPayload b]" and "j < length (bs_Objects b)"
  shows "length (br_Objects input) = length (bs_Objects b)
    \<and> bs_Objects b ! j = fst (processObject h (env_views env (sv_world s1) j) (br_Operation input) (RepositoryID auth)
        (req_owner r) (req_repository r) (req_Header r ''Authorization'') (br_Objects input ! j))"
  using batch_granted [OF assms(1-3), of i] assms(4,5) by (auto simp: processObjects_def object_work_def Let_def)

lemma batch_rejected:
  assumes "\<nexists>input token. batch_admissible g h r input token"
  shows "snd (batch g env h i r s) = s \<and> final_status (run_writes (fst (batch g env h i r s)) empty_response) \<noteq> 200"
proof (cases "acceptsLFSJSON g r \<and> is_ok (readJSON g decode_batchRequest batchRequest_zero r)")
  case True
  then obtain input where input: "acceptsLFSJSON g r" "readJSON g decode_batchRequest batchRequest_zero r = Inr input"
    by (auto simp: is_ok_def split: sum.splits)
  show ?thesis
  proof (cases "validateBatch g h input")
    case None
    then have "basicToken r = None"
      using assms input basicToken_header [of r] by (cases "basicToken r") (auto simp: batch_admissible_def)
    with input None show ?thesis by (simp add: batch_def)
  qed (use input in \<open>simp add: batch_def\<close>)
next
  case False
  then consider "\<not> acceptsLFSJSON g r"
    | e where "acceptsLFSJSON g r" "readJSON g decode_batchRequest batchRequest_zero r = Inl e"
    by (cases "readJSON g decode_batchRequest batchRequest_zero r") auto
  then show ?thesis by cases (simp_all add: batch_def)
qed

lemma batch_cases:
  obtains (rejected) "snd (batch g env h i r s) = s" "final_status (run_writes (fst (batch g env h i r s)) empty_response) \<noteq> 200"
      "\<nexists>input token. batch_admissible g h r input token"
  | (unauthorized) input token e s1 where "batch_admissible g h r input token"
      "lfs_authorize g env (req_owner r) (req_repository r) token s = (Inl e, s1)"
      "batch g env h i r s = (writeForgeError i e, s1)"
  | (insufficient) input token auth s1 where "batch_admissible g h r input token"
      "lfs_authorize g env (req_owner r) (req_repository r) token s = (Inr auth, s1)" "\<not> sufficient input auth"
      "batch g env h i r s = (writeError i (if br_Operation input = ''upload'' then 403 else 404)
         (if br_Operation input = ''upload'' then ''repository is read-only'' else ''repository not found''), s1)"
  | (granted) input token auth s1 where "batch_admissible g h r input token"
      "lfs_authorize g env (req_owner r) (req_repository r) token s = (Inr auth, s1)" "sufficient input auth"
proof (cases "\<exists>input token. batch_admissible g h r input token")
  case False
  with batch_rejected [OF this] show thesis by (blast intro: rejected)
next
  case True
  then obtain input token where ok: "batch_admissible g h r input token" by blast
  obtain q s1 where q: "lfs_authorize g env (req_owner r) (req_repository r) token s = (q, s1)" by (metis prod.exhaust)
  show thesis
  proof (cases q)
    case (Inl e)
    then show thesis using ok q by (intro unauthorized [OF ok]) (auto simp: batch_def batch_admissible_def)
  next
    case (Inr auth)
    show thesis
    proof (cases "sufficient input auth")
      case False
      then show thesis using ok q Inr validated_operation [of g h input]
        by (intro insufficient [OF ok])
          (auto simp: batch_def batch_admissible_def sufficient_def split: if_splits)
    qed (use ok q Inr in \<open>blast intro: granted\<close>)
  qed
qed

text \<open>
  C15. A batch is served exactly when the request is well-formed, carries credentials, is
  authorized, and the permission suffices for the operation: write for an upload, read or
  write for a download.
\<close>

theorem batch_served_iff:
  "final_status (run_writes (fst (batch g env h i r s)) empty_response) = 200 \<longleftrightarrow>
     (\<exists>input token auth. acceptsLFSJSON g r \<and> readJSON g decode_batchRequest batchRequest_zero r = Inr input
        \<and> validateBatch g h input = None \<and> basicToken r = Some (token, req_Header r ''Authorization'')
        \<and> fst (lfs_authorize g env (req_owner r) (req_repository r) token s) = Inr auth
        \<and> (br_Operation input = ''upload'' \<and> Permission auth = PermissionWrite
           \<or> br_Operation input = ''download'' \<and> PermissionRead \<le> Permission auth))"
    (is "_ \<longleftrightarrow> ?served")
proof -
  have suff: "br_Operation input = ''upload'' \<and> Permission auth = PermissionWrite
        \<or> br_Operation input = ''download'' \<and> PermissionRead \<le> Permission auth
      \<longleftrightarrow> sufficient input auth" if "batch_admissible g h r input token" for input auth token
    using validated_operation [of g h input] that
    by (auto simp: sufficient_def batch_admissible_def not_less [symmetric])
  show ?thesis
  proof (cases rule: batch_cases [of g env h i r s])
    case rejected
    then show ?thesis unfolding batch_admissible_def by blast
  next
    case (unauthorized input token e s1)
    then show ?thesis by (auto simp: batch_admissible_def)
  next
    case (insufficient input token auth s1)
    then show ?thesis using suff [OF insufficient(1), of auth] by (auto simp: batch_admissible_def)
  next
    case (granted input token auth s1)
    then show ?thesis using suff [OF granted(1), of auth] batch_granted [OF granted, of i]
      by (simp add: batch_admissible_def)
  qed
qed

text \<open>
  A request that fails its own checks costs nothing: the cache, the counters and the
  world, GitHub and the store included, are as before.
\<close>

theorem rejected_request_untouched:
  assumes "\<not> acceptsLFSJSON g r \<or> \<not> is_ok (readJSON g decode_batchRequest batchRequest_zero r)
      \<or> validateBatch g h (projr (readJSON g decode_batchRequest batchRequest_zero r)) \<noteq> None \<or> basicToken r = None"
  shows "snd (batch g env h i r s) = s"
  using assms
  by (cases rule: batch_cases [of g env h i r s]) (auto simp: batch_admissible_def)

definition env1 :: "time lfs_env" where
  "env1 = \<lparr>env_now = (\<lambda>t. t),
     env_authorize = (\<lambda>ow nm tok t. (if tok = ''ghu_x'' then Inr auth0 else Inl ErrUnauthenticated, t + 1)),
     env_views = (\<lambda>_ _. view0)\<rparr>"

definition server0 :: "time server" where
  "server0 = \<lparr>sv_cache = newWithClock 10 AuthorizationCacheTTL ''s'', sv_metrics = Some metrics_New, sv_world = 0\<rparr>"

lemma rejected_request_untouched_witness:
  "snd (batch lib0 env1 handler0 ''id'' (request0\<lparr>req_Header := (\<lambda>h. if h = ''Accept'' then ''text/plain'' else [])\<rparr>) server0) = server0"
proof -
  have "\<not> acceptsLFSJSON lib0 (request0\<lparr>req_Header := (\<lambda>h. if h = ''Accept'' then ''text/plain'' else [])\<rparr>)"
    by code_simp
  then show ?thesis by (intro rejected_request_untouched) simp
qed

subsection \<open>Rate limits\<close>

lemma retry_seconds_range: "1 \<le> retry_seconds e"
  by (simp add: retry_seconds_def Let_def)

lemma retry_seconds_exact:
  "errors_as_retry e = Some (n * second) \<Longrightarrow> 0 < n \<Longrightarrow> in_int64 (n * second) \<Longrightarrow> retry_seconds e = n"
  using round_whole_seconds [of n] by (simp add: retry_seconds_def second_def)

lemma retry_header:
  assumes "errors_as_retry e \<noteq> None \<or> errors_is e ErrRateLimited"
  shows "sent_header (run_writes (writeForgeError i e) empty_response) ''Retry-After'' = Some (format_int (retry_seconds e))"
  using assms by (auto simp: write_defs run_defs)



text \<open>
  Every error of the authorization boundary gets one of four statuses, by its class
  alone; the first two come with what the client needs to go on: a Retry-After of at least a
  second, or the authentication challenge.
\<close>

theorem forge_error_answer:
  "let w = run_writes (writeForgeError i e) empty_response in
     final_status w = (if errors_as_retry e \<noteq> None \<or> errors_is e ErrRateLimited then 429
       else if errors_is e ErrUnauthenticated then 401
       else if errors_is e ErrForgeNotFound \<or> errors_is e ErrForbidden then 404 else 503)
     \<and> (final_status w = 429 \<longleftrightarrow> (\<exists>n \<ge> 1. sent_header w ''Retry-After'' = Some (format_int n)))
     \<and> (final_status w = 401 \<longleftrightarrow> sent_header w ''LFS-Authenticate'' = Some ''Basic realm=\"GOLFS\"'')"
  using retry_header [of e i] retry_seconds_range [of e]
  by (auto simp: Let_def forge_status_def) (auto simp: write_defs run_defs)

subsection \<open>Authorizations and the cache\<close>

text \<open>Clients of any authorizer that keeps its contract.\<close>

context authorizer
begin

lemma refused_without_request:
  assumes "env_authorize env = authorize" and "\<not> accepted_token token"
    and "fst (cache_Get g (sv_cache s) (env_now env (sv_world s)) token owner repo) = None"
  shows "\<exists>c. lfs_authorize g env owner repo token s
    = (Inl ErrUnauthenticated, s\<lparr>sv_cache := c, sv_metrics := observeAuth ''miss'' (sv_metrics s)\<rparr>)"
  using assms rejected [OF assms(2), of owner repo "sv_world s"]
  by (cases "cache_Get g (sv_cache s) (env_now env (sv_world s)) token owner repo")
    (auto simp: lfs_authorize_def)

lemma fresh_grant_named:
  assumes "env_authorize env = authorize" and "lfs_authorize g env owner repo token s = (Inr auth, s1)"
    and "fst (cache_Get g (sv_cache s) (env_now env (sv_world s)) token owner repo) = None"
  shows "accepted_token token \<and> 0 < RepositoryID auth \<and> CanonicalName auth \<noteq> []"
  using assms
  by (cases "cache_Get g (sv_cache s) (env_now env (sv_world s)) token owner repo";
      cases "authorize owner repo token (sv_world s)"; cases "fst (authorize owner repo token (sv_world s))")
    (auto simp: lfs_authorize_def positive_id named token_class)

end

text \<open>
  \<open>granting env\<close> behaves as \<open>env\<close> and keeps every authorization it gives: when, to whom, for
  which path, and what.
\<close>

type_synonym grant = "time \<times> cache_triple \<times> Authorization"

definition granting :: "'w lfs_env \<Rightarrow> ('w \<times> grant list) lfs_env" where
  "granting env = \<lparr>
     env_now = (\<lambda>(w, l). env_now env w),
     env_authorize = (\<lambda>ow nm tok (w, l).
       (case env_authorize env ow nm tok w of
          (Inl e, w') \<Rightarrow> (Inl e, (w', l))
        | (Inr a, w') \<Rightarrow> (Inr a, (w', (env_now env w', (tok, ow, nm), a) # l)))),
     env_views = (\<lambda>(w, l). env_views env w)\<rparr>"

text \<open>Every entry of a cache rests on one of the grants \<open>G\<close>, and expires a lifetime after it.\<close>

definition stored_rests :: "golib \<Rightarrow> string \<Rightarrow> duration \<Rightarrow> Cache \<Rightarrow> grant set \<Rightarrow> bool" where
  "stored_rests g key life c G =
     (cache_ok key life c
      \<and> (\<forall>k a x. cache_stored g c k = Some (a, x) \<longrightarrow>
           (\<exists>t0 k0. (t0, k0, a) \<in> G \<and> triple_key g key k0 = triple_key g key k \<and> x = t0 + life)))"

lemma rests_new: "cache_New cap life (Some key) = Inr c \<Longrightarrow> stored_rests g key life c G"
  using cache_New_ok [of cap life "Some key" c] by (auto simp: stored_rests_def cache_New_stored)

lemma rests_get:
  assumes rests: "stored_rests g key life c G" and get: "cache_Get g c now tok ow nm = (q, c')"
  shows "stored_rests g key life c' G
    \<and> (\<forall>a. q = Some a \<longrightarrow> (\<exists>t0 k0. (t0, k0, a) \<in> G
        \<and> triple_key g key k0 = triple_key g key (tok, ow, nm) \<and> now < t0 + life))"
proof -
  let ?k = "(tok, ow, nm)"
  have ok: "cache_ok key life c" using rests by (simp add: stored_rests_def)
  have get': "cache_get g c now ?k = (q, c')" using get by (simp add: cache_get_def)
  have "cache_ok key life c'" using lru_cache.inv_get [OF ok, of g now ?k] get' by simp
  moreover have "cache_stored g c' k = Some e \<Longrightarrow> cache_stored g c k = Some e" for k e
    using lru_cache.get_keeps [OF ok, of g now ?k k e] get' by simp
  ultimately have "stored_rests g key life c' G" using rests unfolding stored_rests_def by blast
  moreover have "\<exists>t0 k0. (t0, k0, a) \<in> G \<and> triple_key g key k0 = triple_key g key ?k \<and> now < t0 + life"
    if q: "q = Some a" for a
  proof -
    obtain x where "cache_stored g c ?k = Some (a, x)" "now < x"
      using lru_cache.get_hit [OF ok, of g now ?k a] get' [unfolded q] by auto
    then show ?thesis using rests unfolding stored_rests_def by blast
  qed
  ultimately show ?thesis by blast
qed

lemma rests_put:
  assumes rests: "stored_rests g key life c G"
  shows "stored_rests g key life (cache_Put g c t tok ow nm a) (insert (t, (tok, ow, nm), a) G)"
proof -
  let ?k = "(tok, ow, nm)" and ?G = "insert (t, (tok, ow, nm), a) G"
  have ok: "cache_ok key life c" using rests by (simp add: stored_rests_def)
  have "\<exists>t0 k0. (t0, k0, b) \<in> ?G \<and> triple_key g key k0 = triple_key g key k \<and> x = t0 + life"
    if st: "cache_stored g (cache_put g c t ?k a) k = Some (b, x)" for k b x
  proof (cases "triple_key g key ?k = triple_key g key k")
    case True
    then show ?thesis using lru_cache.put_same [OF ok True, of t a] st by auto
  next
    case False
    then have "cache_stored g c k = Some (b, x)" by (rule lru_cache.put_other [OF ok _ st])
    then show ?thesis using rests unfolding stored_rests_def by blast
  qed
  then show ?thesis using lru_cache.inv_put [OF ok, of g t ?k a] by (simp add: stored_rests_def cache_put_def)
qed

definition grants_inv :: "golib \<Rightarrow> string \<Rightarrow> duration \<Rightarrow> ('w \<times> grant list) server \<Rightarrow> bool" where
  "grants_inv g key life s = stored_rests g key life (sv_cache s) (set (snd (sv_world s)))"

lemma authorize_grants:
  assumes inv: "grants_inv g key life s"
    and run: "lfs_authorize g (granting env) ow nm tok s = (r, s')"
  shows "grants_inv g key life s' \<and> set (snd (sv_world s)) \<subseteq> set (snd (sv_world s'))
    \<and> (\<forall>a. r = Inr a \<longrightarrow> (\<exists>t0 k0. (t0, k0, a) \<in> set (snd (sv_world s'))
        \<and> triple_key g key k0 = triple_key g key (tok, ow, nm)
        \<and> (env_now env (fst (sv_world s)) < t0 + life \<or> t0 = env_now env (fst (sv_world s')))))"
proof -
  obtain w l where w: "sv_world s = (w, l)" by (cases "sv_world s")
  have now: "env_now (granting env) (w, l) = env_now env w" by (simp add: granting_def)
  obtain q c1 where q: "cache_Get g (sv_cache s) (env_now env w) tok ow nm = (q, c1)" by (metis prod.exhaust)
  have "stored_rests g key life (sv_cache s) (set l)" using inv w by (simp add: grants_inv_def)
  note got = rests_get [OF this q]
  show ?thesis
  proof (cases q)
    case (Some a)
    then have "r = Inr a" "sv_cache s' = c1" "sv_world s' = (w, l)"
      using run q w now by (auto simp: lfs_authorize_def)
    then show ?thesis using w got Some by (fastforce simp: grants_inv_def)
  next
    case None
    obtain p w1 where p: "env_authorize env ow nm tok w = (p, w1)" by (metis prod.exhaust)
    show ?thesis
    proof (cases p)
      case (Inl e)
      then show ?thesis using run q w now None p got
        by (auto simp: lfs_authorize_def granting_def grants_inv_def)
    next
      case (Inr a)
      let ?t = "env_now env w1"
      have s': "r = Inr a" "sv_cache s' = cache_Put g c1 ?t tok ow nm a" "sv_world s' = (w1, (?t, (tok, ow, nm), a) # l)"
        using run q w now None p Inr by (auto simp: lfs_authorize_def granting_def)
      then show ?thesis using rests_put [of g key life c1 "set l" ?t tok ow nm a] got w
        by (auto simp: grants_inv_def)
    qed
  qed
qed

text \<open>The states of a server whose grants are kept, between requests.\<close>

inductive server_reachable ::
    "golib \<Rightarrow> 'w lfs_env \<Rightarrow> Handler \<Rightarrow> string \<Rightarrow> duration \<Rightarrow> ('w \<times> grant list) server \<Rightarrow> bool"
  for g env h key life where
  started: "cache_New cap life (Some key) = Inr c \<Longrightarrow>
     server_reachable g env h key life \<lparr>sv_cache = c, sv_metrics = m, sv_world = (w, [])\<rparr>"
| batched: "server_reachable g env h key life s \<Longrightarrow> batch g (granting env) h i r s = (ops, s') \<Longrightarrow>
     server_reachable g env h key life s'"
| verified: "server_reachable g env h key life s \<Longrightarrow> verify g (granting env) h i r s = (ops, s') \<Longrightarrow>
     server_reachable g env h key life s'"
| meanwhile: "server_reachable g env h key life s \<Longrightarrow>
     server_reachable g env h key life (s\<lparr>sv_metrics := m, sv_world := (w, snd (sv_world s))\<rparr>)"

lemma grants_inv_metrics [simp]: "grants_inv g key life (s\<lparr>sv_metrics := m\<rparr>) = grants_inv g key life s"
  by (simp add: grants_inv_def)

lemma batch_state:
  "batch g env h i r s = (ops, s') \<Longrightarrow> s' = s \<or>
     (\<exists>token p s1 m. lfs_authorize g env (req_owner r) (req_repository r) token s = (p, s1) \<and> s' = s1\<lparr>sv_metrics := m\<rparr>)"
  by (auto simp: batch_def Let_def split: if_splits sum.splits option.splits prod.splits)
    (metis server.surjective server.update_convs(2))+

lemma verify_state:
  "verify g env h i r s = (ops, s') \<Longrightarrow> s' = s \<or>
     (\<exists>token p s1 m. lfs_authorize g env (req_owner r) (req_repository r) token s = (p, s1) \<and> s' = s1\<lparr>sv_metrics := m\<rparr>)"
  by (auto simp: verify_def observeVerify_def split: if_splits sum.splits option.splits prod.splits)
    (metis server.surjective server.update_convs(2))+

lemma reachable_grants: "server_reachable g env h key life s \<Longrightarrow> grants_inv g key life s"
proof (induction rule: server_reachable.induct)
  case (started cap c m w)
  then show ?case by (simp add: grants_inv_def rests_new)
next
  case (batched s i r ops s')
  from batch_state [OF batched(2)] show ?case
    using batched.IH authorize_grants [OF batched.IH] by auto
next
  case (verified s i r ops s')
  from verify_state [OF verified(2)] show ?case
    using verified.IH authorize_grants [OF verified.IH] by auto
next
  case (meanwhile s m w)
  then show ?case by (simp add: grants_inv_def)
qed


lemma request0_reads: "readJSON lib0 decode_batchRequest batchRequest_zero request0
    = Inr \<lparr>br_Operation = ''download'', br_Transfers = [], br_Ref = JNull, br_HashAlgo = [],
        br_Objects = [\<lparr>ro_OID = oid0, ro_Size = 5\<rparr>]\<rparr>"
  by code_simp

lemma request0_admissible:
  "batch_admissible lib0 handler0 request0 \<lparr>br_Operation = ''download'', br_Transfers = [], br_Ref = JNull,
     br_HashAlgo = [], br_Objects = [\<lparr>ro_OID = oid0, ro_Size = 5\<rparr>]\<rparr> ''ghu_x''"
proof -
  have "basicToken request0 = Some (''ghu_x'', req_Header request0 ''Authorization'')"
    using parse_basic_auth_header [of "''x''" "''ghu_x''"] by (simp add: basicToken_def request0_def)
  moreover have "acceptsLFSJSON lib0 request0" by (simp add: acceptsLFSJSON_def request0_def Let_def ascii_string_def)
  ultimately show ?thesis
    by (simp add: batch_admissible_def request0_reads validateBatch_def validate_objects_exact
        acceptable_object_def oid0_ok MaximumBatchObjects_def)
qed

lemma new_cache0: "cache_New 10 AuthorizationCacheTTL (Some ''s'') = Inr (newWithClock 10 AuthorizationCacheTTL ''s'')"
  by (simp add: cache_New_def AuthorizationCacheTTL_def duration_units)

definition server1 :: "(time \<times> grant list) server" where
  "server1 = \<lparr>sv_cache = newWithClock 10 AuthorizationCacheTTL ''s'', sv_metrics = Some metrics_New, sv_world = (0, [])\<rparr>"

lemma server1_reachable: "server_reachable g env h ''s'' AuthorizationCacheTTL server1"
  using started [OF new_cache0] by (simp add: server1_def)

lemma server1_authorize:
  "\<exists>s1. lfs_authorize lib0 (granting env1) ow nm ''ghu_x'' server1 = (Inr auth0, s1) \<and> snd (sv_world s1) = [(1, (''ghu_x'', ow, nm), auth0)]"
  by (simp add: lfs_authorize_def server1_def cache_Get_def newWithClock_def granting_def env1_def)


text \<open>What a miss puts into the cache is found there, in any ASCII spelling of the path.\<close>

lemma authorization_cached:
  assumes "cache_inv (sv_cache s)" and "lfs_authorize g env ow nm token s = (Inr auth, s1)"
    and "fst (cache_Get g (sv_cache s) (env_now env (sv_world s)) token ow nm) = None"
    and "env_now env w < env_now env (sv_world s1) + ttl (sv_cache s)"
    and "ToLower g ow' = ToLower g ow" and "ToLower g nm' = ToLower g nm"
    and "sv_cache s' = sv_cache s1" and "sv_world s' = w"
  shows "\<exists>s2. lfs_authorize g env ow' nm' token s' = (Inr auth, s2) \<and> sv_world s2 = w"
proof -
  obtain c1 where c1: "cache_Get g (sv_cache s) (env_now env (sv_world s)) token ow nm = (None, c1)"
    using assms(3) by (metis prod.collapse)
  have inv: "cache_inv c1" "ttl c1 = ttl (sv_cache s)"
    using cache_Get_inv [OF assms(1)] cache_Get_life c1 by (metis snd_conv)+
  have "sv_cache s1 = cache_Put g c1 (env_now env (sv_world s1)) token ow nm auth"
    using assms(2) c1
    by (cases "env_authorize env ow nm token (sv_world s)"; cases "fst (env_authorize env ow nm token (sv_world s))")
      (auto simp: lfs_authorize_def)
  then have "fst (cache_Get g (sv_cache s1) (env_now env w) token ow' nm') = Some auth"
    using cache_hit_again [OF inv(1) assms(5,6), of "env_now env (sv_world s1)" token auth "env_now env w"] inv(2) assms(4) by simp
  then show ?thesis using assms(7,8)
    by (cases "cache_Get g (sv_cache s1) (env_now env w) token ow' nm'") (simp add: lfs_authorize_def)
qed

text \<open>
  A second request for the same token and path, in any ASCII spelling of the path, within
  the cache lifetime is authorized from the cache: the authorizer is not asked and the answer
  is the same.
\<close>

theorem second_authorization_free:
  assumes "cache_inv (sv_cache s)" and "lfs_authorize g env ow nm token s = (Inr auth, s1)"
    and "fst (cache_Get g (sv_cache s) (env_now env (sv_world s)) token ow nm) = None"
    and "env_now env w < env_now env (sv_world s1) + ttl (sv_cache s)"
    and "ToLower g ow' = ToLower g ow" and "ToLower g nm' = ToLower g nm"
  shows "\<exists>s2. lfs_authorize g env ow' nm' token (s1\<lparr>sv_world := w\<rparr>) = (Inr auth, s2) \<and> sv_world s2 = w"
  by (rule authorization_cached [OF assms]) simp_all

lemma second_authorization_free_witness:
  "\<exists>s1 s2. lfs_authorize lib0 env1 ''o'' ''r'' ''ghu_x'' server0 = (Inr auth0, s1)
     \<and> lfs_authorize lib0 env1 ''O'' ''r'' ''ghu_x'' (s1\<lparr>sv_world := 59 * second\<rparr>) = (Inr auth0, s2)"
proof -
  obtain s1 where s1: "lfs_authorize lib0 env1 ''o'' ''r'' ''ghu_x'' server0 = (Inr auth0, s1)" "sv_world s1 = 1"
    by (simp add: lfs_authorize_def server0_def cache_Get_def newWithClock_def env1_def)
  have inv: "cache_inv (sv_cache server0)" using cache_inv_newWithClock by (simp add: server0_def)
  have miss: "fst (cache_Get lib0 (sv_cache server0) (env_now env1 (sv_world server0)) ''ghu_x'' ''o'' ''r'') = None"
    by (simp add: server0_def cache_Get_def newWithClock_def)
  have life: "env_now env1 (59 * second) < env_now env1 (sv_world s1) + ttl (sv_cache server0)"
    by (simp add: env1_def s1(2) server0_def newWithClock_def AuthorizationCacheTTL_def duration_units)
  have "ToLower lib0 ''O'' = ToLower lib0 ''o''" by code_simp
  from second_authorization_free [OF inv s1(1) miss life this refl] s1(1) show ?thesis by blast
qed

lemma verify_confirmed:
  assumes "acceptsLFSJSON g r" and "readJSON g decode_requestObject requestObject_zero r = Inr input" and "acceptable_object h input"
    and "basicToken r = Some (token, req_Header r ''Authorization'')"
    and "lfs_authorize g env (req_owner r) (req_repository r) token s = (Inr auth, s1)" and "Permission auth = PermissionWrite"
    and "store_Head (env_views env (sv_world s1) 0) (RepositoryID auth) (ro_OID input) = Inr stored"
    and "obj_Size stored = ro_Size input"
  shows "verify g env h i r s = (writeJSON 200 (VerifyPayload (ro_OID input)), observeVerify ''success'' s1)"
proof -
  have "validateObject g h input = None" using assms(3) by (simp add: validateObject_exact)
  then show ?thesis using assms by (simp add: verify_def matches_def)
qed

text \<open>
  C16. Verification succeeds exactly for an authorized writer and an object that the store has
  under the authorized repository's ID with the announced size; an object of another
  repository, of another size, or one the store cannot answer for is never confirmed.
\<close>

theorem verify_confirms_iff:
  "final_status (run_writes (fst (verify g env h i r s)) empty_response) = 200 \<longleftrightarrow>
     (\<exists>input token auth s1 stored. acceptsLFSJSON g r \<and> readJSON g decode_requestObject requestObject_zero r = Inr input
        \<and> acceptable_object h input \<and> basicToken r = Some (token, req_Header r ''Authorization'')
        \<and> lfs_authorize g env (req_owner r) (req_repository r) token s = (Inr auth, s1)
        \<and> Permission auth = PermissionWrite
        \<and> store_Head (env_views env (sv_world s1) 0) (RepositoryID auth) (ro_OID input) = Inr stored
        \<and> obj_Size stored = ro_Size input)"
    (is "?ok \<longleftrightarrow> ?confirmed")
proof
  assume ?confirmed
  then obtain input token auth s1 stored where v: "acceptsLFSJSON g r"
    "readJSON g decode_requestObject requestObject_zero r = Inr input" "acceptable_object h input"
    "basicToken r = Some (token, req_Header r ''Authorization'')"
    "lfs_authorize g env (req_owner r) (req_repository r) token s = (Inr auth, s1)" "Permission auth = PermissionWrite"
    "store_Head (env_views env (sv_world s1) 0) (RepositoryID auth) (ro_OID input) = Inr stored"
    "obj_Size stored = ro_Size input" by blast
  show ?ok by (simp add: verify_confirmed [OF v])
next
  assume ok: ?ok
  from ok have acc: "acceptsLFSJSON g r" by (auto simp: verify_def split: if_splits)
  with ok obtain input where input: "readJSON g decode_requestObject requestObject_zero r = Inr input"
    by (auto simp: verify_def split: sum.splits)
  with acc ok have none: "validateObject g h input = None"
    by (cases "validateObject g h input") (simp_all add: verify_def)
  with acc input ok obtain token orig where tok: "basicToken r = Some (token, orig)"
    by (cases "basicToken r") (auto simp: verify_def)
  obtain q s1 where q: "lfs_authorize g env (req_owner r) (req_repository r) token s = (q, s1)" by (metis prod.exhaust)
  note known = acc input none tok q
  with ok obtain auth where auth: "q = Inr auth" by (cases q) (simp_all add: verify_def)
  with known ok have writer: "Permission auth = PermissionWrite"
    by (cases "Permission auth = PermissionWrite") (simp_all add: verify_def)
  with known auth ok obtain stored where stored: "store_Head (env_views env (sv_world s1) 0) (RepositoryID auth) (ro_OID input) = Inr stored"
    by (cases "store_Head (env_views env (sv_world s1) 0) (RepositoryID auth) (ro_OID input)")
      (simp_all add: verify_def split: if_splits)
  with known auth writer ok have "obj_Size stored = ro_Size input"
    by (cases "obj_Size stored = ro_Size input") (simp_all add: verify_def matches_def)
  then show ?confirmed
    using known auth writer stored basicToken_header [OF tok] by (auto simp: validateObject_exact)
qed

subsection \<open>The middleware\<close>

text \<open>Calls that leave one header alone.\<close>

definition leaves_header :: "string \<Rightarrow> ops \<Rightarrow> bool" where
  "leaves_header k ops = list_all (\<lambda>x. case x of SetHeader k' v \<Rightarrow> k' \<noteq> k | _ \<Rightarrow> True) ops"

definition with_header :: "string \<Rightarrow> string \<Rightarrow> payload response \<Rightarrow> payload response" where
  "with_header k v w = w\<lparr>hdr := (hdr w)(k \<mapsto> v), sent := map_option (\<lambda>(c, hs). (c, hs(k \<mapsto> v))) (sent w)\<rparr>"

lemma do_write_with_header:
  "leaves_header k [x] \<Longrightarrow> do_write (with_header k v w) x = with_header k v (do_write w x)"
  by (cases x; cases "sent w") (auto simp: with_header_def leaves_header_def Let_def write_header_def fun_upd_twist)

lemma run_writes_with_header:
  "leaves_header k ops \<Longrightarrow> run_writes ops (with_header k v w) = with_header k v (run_writes ops w)"
  by (induction ops arbitrary: w) (simp_all add: leaves_header_def do_write_with_header)

lemma handlers_leave_request_id:
  "leaves_header ''X-Request-ID'' (fst (batch g env h i r s))" "leaves_header ''X-Request-ID'' (fst (verify g env h i r s))"
  by (auto simp: batch_def verify_def leaves_header_def write_defs Let_def split: sum.split option.split prod.split)

text \<open>
  Behind the middleware every answer of both endpoints is the handler's own, with the
  generated request ID in the header and, for an error, in the payload.
\<close>

theorem middleware_adds_request_id:
  "let w = run_writes (Middleware i (\<lambda>ctx. (fst (batch g env h (RequestID ctx) r s), False))) empty_response;
       v = run_writes (Middleware i (\<lambda>ctx. (fst (verify g env h (RequestID ctx) r s), False))) empty_response in
     sent_header w ''X-Request-ID'' = Some i \<and> body w = body (run_writes (fst (batch g env h i r s)) empty_response)
     \<and> final_status w = final_status (run_writes (fst (batch g env h i r s)) empty_response)
     \<and> sent_header v ''X-Request-ID'' = Some i \<and> body v = body (run_writes (fst (verify g env h i r s)) empty_response)
     \<and> final_status v = final_status (run_writes (fst (verify g env h i r s)) empty_response)"
proof -
  have start: "do_write empty_response (SetHeader k v) = with_header k v empty_response" for k v
    by (simp add: with_header_def empty_response_def)
  have "sent_header (with_header k v w) k = Some v" "body (with_header k v w) = body w"
    "final_status (with_header k v w) = final_status w" for k v w
    by (auto simp: with_header_def sent_header_def final_status_def split: option.splits)
  then show ?thesis
    by (simp add: Middleware_def RequestID_def Let_def start run_writes_with_header
        handlers_leave_request_id del: do_write.simps)
qed

text \<open>
  A handler that panics before it wrote anything answers 500 with the request's ID and
  nothing of the panic; one that panics later leaves the status it sent.
\<close>

theorem panic_answered:
  "let w = run_writes (Middleware i (\<lambda>_. (ops, True))) empty_response in
     (sent (run_writes (SetHeader ''X-Request-ID'' i # ops) empty_response) = None \<longrightarrow>
        final_status w = 500 \<and> last (body w) = ErrorPayload \<lparr>er_Message = ''internal server error'', er_RequestID = i\<rparr>
        \<and> sent_header w ''Content-Type'' = Some MediaType)
     \<and> (\<forall>c hs. sent (run_writes (SetHeader ''X-Request-ID'' i # ops) empty_response) = Some (c, hs) \<longrightarrow> final_status w = c)"
  by (simp add: Middleware_def Let_def write_header_def run_defs split: option.split)

lemma panic_answered_witness:
  "final_status (run_writes (Middleware ''id'' (\<lambda>_. ([SetHeader ''Retry-After'' ''1''], True))) empty_response) = 500"
  using panic_answered [of "''id''" "[SetHeader ''Retry-After'' ''1'']"]
  by (simp add: Let_def empty_response_def)

end
