(* ===== verification/Golfs_Server.thy ===== *)
theory Golfs_Server
  imports LFS_Handler
begin

section \<open>Command golfs: startup and the public listener\<close>

text \<open>
  \<^verbatim>\<open>cmd/golfs/main.go\<close>. Starting up builds the components in order and checks them against
  GitHub and the bucket; a request is counted under its route, passes the middleware and is
  dispatched by the ServeMux. The operations listener and the life of the process are in
  \<open>Golfs_Process\<close>.
\<close>

subsection \<open>Startup\<close>

record ('w, 'v) app =
  ap_config :: Config
  ap_github :: "Authorizer \<times> 'w"
  ap_s3 :: "Store \<times> 'v"
  ap_cache :: Cache
  ap_handler :: Handler

definition github_config :: "Config \<Rightarrow> GitHubConfig" where
  "github_config cfg = \<lparr>gc_ClientID = cfg_GitHubAppClientID cfg, gc_PrivateKeyPEM = cfg_GitHubAppPrivateKeyPEM cfg,
     gc_AllowedInstallationIDs = cfg_GitHubAllowedInstallationIDs cfg, gc_APIURL = [], gc_Metrics = Some metrics_New\<rparr>"

definition s3_config :: "Config \<Rightarrow> S3Config" where
  "s3_config cfg = \<lparr>s3_Endpoint = cfg_S3Endpoint cfg, s3_Region = cfg_S3Region cfg, s3_Bucket = cfg_S3Bucket cfg,
     s3_UsePathStyle = cfg_S3UsePathStyle cfg, s3_PresignTTL = cfg_PresignTTL cfg, s3_Metrics = Some metrics_New\<rparr>"

definition handler_options :: "Config \<Rightarrow> Options" where
  "handler_options cfg = \<lparr>op_PublicURL = cfg_PublicURL cfg, op_MaxObjectSize = cfg_MaxObjectSize cfg, op_Concurrency = 0\<rparr>"

text \<open>
  The parameters are the environment, the two outsides with their states, and the random
  bytes for the cache. The startup deadline shows only as failing requests.
\<close>

definition startup ::
    "golib \<Rightarrow> map_order \<Rightarrow> environment \<Rightarrow> 'w outside \<Rightarrow> 'w \<Rightarrow> 'v sdk \<Rightarrow> 'v \<Rightarrow> string option
     \<Rightarrow> (err, ('w, 'v) app) result" where
  "startup g order env gh w sdk v random =
     bind_result (config_Load g order env) (\<lambda>cfg.
     bind_result (github_New g gh (github_config cfg)) (\<lambda>a.
     bind_result (s3_New sdk (s3_config cfg)) (\<lambda>st.
       (case github_Validate g gh (a, w) of
          (Inl e, _) \<Rightarrow> Inl e
        | (Inr _, gs) \<Rightarrow>
            (case s3_Validate sdk (st, v) of
               (Inl e, _) \<Rightarrow> Inl e
             | (Inr _, ss) \<Rightarrow>
                 bind_result (cache_New AuthorizationCacheSize AuthorizationCacheTTL random) (\<lambda>c.
                   Inr \<lparr>ap_config = cfg, ap_github = gs, ap_s3 = ss, ap_cache = c,
                     ap_handler = lfs_New (handler_options cfg)\<rparr>))))))"

lemma startup_steps:
  assumes "startup g order env gh w sdk v random = Inr app"
  obtains a st where "config_Load g order env = Inr (ap_config app)"
    "github_New g gh (github_config (ap_config app)) = Inr a"
    "s3_New sdk (s3_config (ap_config app)) = Inr st"
    "github_Validate g gh (a, w) = (Inr (), ap_github app)"
    "s3_Validate sdk (st, v) = (Inr (), ap_s3 app)"
    "cache_New AuthorizationCacheSize AuthorizationCacheTTL random = Inr (ap_cache app)"
    "ap_handler app = lfs_New (handler_options (ap_config app))"
proof -
  obtain cfg a st where new: "config_Load g order env = Inr cfg" "github_New g gh (github_config cfg) = Inr a"
    "s3_New sdk (s3_config cfg) = Inr st"
    and checks: "(case github_Validate g gh (a, w) of (Inl e, _) \<Rightarrow> Inl e
        | (Inr _, gs) \<Rightarrow>
            (case s3_Validate sdk (st, v) of (Inl e, _) \<Rightarrow> Inl e
             | (Inr _, ss) \<Rightarrow>
                 bind_result (cache_New AuthorizationCacheSize AuthorizationCacheTTL random) (\<lambda>c.
                   Inr \<lparr>ap_config = cfg, ap_github = gs, ap_s3 = ss, ap_cache = c,
                     ap_handler = lfs_New (handler_options cfg)\<rparr>))) = Inr app"
    using assms unfolding startup_def bind_result_Inr_iff by blast
  obtain p gs where p: "github_Validate g gh (a, w) = (p, gs)" by (metis prod.exhaust)
  obtain q ss where q: "s3_Validate sdk (st, v) = (q, ss)" by (metis prod.exhaust)
  have ok: "p = Inr ()" "q = Inr ()" using checks by (auto simp: p q split: sum.splits)
  obtain c where "cache_New AuthorizationCacheSize AuthorizationCacheTTL random = Inr c"
    and app: "app = \<lparr>ap_config = cfg, ap_github = gs, ap_s3 = ss, ap_cache = c,
       ap_handler = lfs_New (handler_options cfg)\<rparr>"
    using checks by (auto simp: p q ok bind_result_Inr_iff)
  note steps = new p [unfolded ok] q [unfolded ok] this
  show thesis by (rule that [of a st]) (use steps in \<open>simp_all add: app\<close>)
qed

text \<open>
  The protocol's server as startup hands it its cache, counters and authorizer.
\<close>

definition protocol_server :: "('w, 'v) app \<Rightarrow> 'w gh_state server" where
  "protocol_server app = \<lparr>sv_cache = ap_cache app, sv_metrics = Some metrics_New, sv_world = ap_github app\<rparr>"

text \<open>
  The environment of the protocol handlers, built from the GitHub authorizer and the S3 store:
  \<open>stores j\<close> are the states of the store in which the calls for object \<open>j\<close> run.
\<close>

definition golfs_env ::
    "golib \<Rightarrow> 'w outside \<Rightarrow> 'v sdk \<Rightarrow> (nat \<Rightarrow> Store \<times> 'v) \<Rightarrow> 'w gh_state lfs_env" where
  "golfs_env g gh sdk stores = \<lparr>env_now = (\<lambda>(a, w). fst (clock gh w)),
     env_authorize = (\<lambda>owner repo token s. Authorize g gh owner repo token s),
     env_views = (\<lambda>_ j. s3_view g sdk (stores j) (stores j) (stores j))\<rparr>"

subsection \<open>Routing\<close>

definition route_label :: "string \<Rightarrow> string" where
  "route_label url_path =
     (if has_suffix url_path ''/info/lfs/objects/batch'' then ''batch''
      else if has_suffix url_path ''/info/lfs/objects/verify'' then ''verify''
      else if url_path = ''/healthz'' then ''healthz''
      else if url_path = ''/readyz'' then ''readyz''
      else if url_path = ''/metrics'' then ''metrics''
      else ''not_found'')"

definition routeMetrics ::
    "string \<Rightarrow> http_request \<Rightarrow> time \<times> time \<Rightarrow> ops \<Rightarrow> Metrics \<times> payload response \<Rightarrow> Metrics \<times> payload response" where
  "routeMetrics listener r period ops mw = Instrument listener (route_label (req_Path r)) (req_Method r) period ops mw"

text \<open>
  The ServeMux of net/http matches the escaped path segment by segment, unescaping each, and
  redirects a path that is not clean, unless the method is CONNECT. How it redirects is left
  to the library: \<open>redirect\<close> are the calls it makes.
\<close>

datatype dispatch =
    ServeBatch string string
  | ServeVerify string string
  | Redirect
  | MethodNotAllowed
  | PageNotFound
  | BadRequest

definition clean_path :: "string \<Rightarrow> bool" where
  "clean_path escaped =
     (let segments = tl (split_on (CHR ''/'') escaped) in
      has_prefix escaped ''/'' \<and> \<not> list_ex (\<lambda>x. x = ''.'' \<or> x = ''..'') segments
      \<and> \<not> list_ex (\<lambda>x. x = []) (butlast segments))"

definition lfs_tail :: "string list" where
  "lfs_tail = [''info'', ''lfs'', ''objects'']"

definition unescaped :: "string \<Rightarrow> string" where
  "unescaped segment = (case path_unescape segment of None \<Rightarrow> segment | Some t \<Rightarrow> t)"

definition publicMux :: "string \<Rightarrow> string \<Rightarrow> dispatch" where
  "publicMux meth escaped =
     (if escaped = ''*'' then BadRequest
      else if meth \<noteq> ''CONNECT'' \<and> \<not> clean_path escaped then Redirect
      else case map unescaped (tl (split_on (CHR ''/'') escaped)) of
        [site, owner, repo, a, b, c, verb] \<Rightarrow>
          if site = ''github.com'' \<and> [a, b, c] = lfs_tail \<and> (verb = ''batch'' \<or> verb = ''verify'') then
            (if meth \<noteq> ''POST'' then MethodNotAllowed
             else if verb = ''batch'' then ServeBatch owner repo else ServeVerify owner repo)
          else PageNotFound
      | _ \<Rightarrow> PageNotFound)"

definition http_Error :: "string \<Rightarrow> int \<Rightarrow> ops" where
  "http_Error message code = [SetHeader ''Content-Type'' ''text/plain; charset=utf-8'',
     SetHeader ''X-Content-Type-Options'' ''nosniff'', WriteHeader code, Write (TextPayload (message @ [CHR 0x0A]))]"

definition serve_dispatch ::
    "golib \<Rightarrow> ops \<Rightarrow> 'w lfs_env \<Rightarrow> Handler \<Rightarrow> string \<Rightarrow> http_request \<Rightarrow> dispatch \<Rightarrow> 'w server \<Rightarrow> ops \<times> 'w server" where
  "serve_dispatch g redirect env h requestID r d s =
     (case d of
        ServeBatch owner repo \<Rightarrow> batch g env h requestID (r\<lparr>req_owner := owner, req_repository := repo\<rparr>) s
      | ServeVerify owner repo \<Rightarrow> verify g env h requestID (r\<lparr>req_owner := owner, req_repository := repo\<rparr>) s
      | Redirect \<Rightarrow> (redirect, s)
      | MethodNotAllowed \<Rightarrow> (SetHeader ''Allow'' ''POST'' # http_Error ''Method Not Allowed'' 405, s)
      | PageNotFound \<Rightarrow> (http_Error ''404 page not found'' 404, s)
      | BadRequest \<Rightarrow> ([SetHeader ''Connection'' ''close'', WriteHeader 400], s))"

definition publicHandler ::
    "golib \<Rightarrow> ops \<Rightarrow> 'w lfs_env \<Rightarrow> Handler \<Rightarrow> string \<Rightarrow> string \<Rightarrow> time \<times> time \<Rightarrow> http_request \<Rightarrow> Metrics \<Rightarrow> 'w server
     \<Rightarrow> (Metrics \<times> payload response) \<times> 'w server" where
  "publicHandler g redirect env h requestID escaped period r m s =
     (let d = publicMux (req_Method r) escaped in
      (routeMetrics ''public'' r period
         (Middleware requestID (\<lambda>ctx. (fst (serve_dispatch g redirect env h (RequestID ctx) r d s), False)))
         (m, empty_response),
       snd (serve_dispatch g redirect env h requestID r d s)))"

subsection \<open>What a started server is made of\<close>

text \<open>
  A server that starts runs on exactly the configuration that was loaded: the allowlist
  of the authorizer is the configured one and every entry is a positive ID, GitHub is the
  public API, the cache is empty with ten thousand places and a minute of life, at most sixteen
  objects are checked at once, and size limit and lifetime are within the protocol's bounds.
\<close>

theorem startup_wires_components:
  assumes "startup g order env gh w sdk v random = Inr app"
    and "mset (order (required_settings (ap_config app))) = mset (required_settings (ap_config app))"
  shows "config_Load g order env = Inr (ap_config app)
    \<and> allowedInstallationIDs (fst (ap_github app)) = set (cfg_GitHubAllowedInstallationIDs (ap_config app))
    \<and> allowedInstallationIDs (fst (ap_github app)) \<noteq> {} \<and> (\<forall>x \<in> allowedInstallationIDs (fst (ap_github app)). 0 < x)
    \<and> url_parse g ''https://api.github.com'' = Some (baseURL (fst (ap_github app)))
    \<and> (\<exists>key. ap_cache app = newWithClock 10000 minute key)
    \<and> h_concurrency (ap_handler app) = 16
    \<and> 1 \<le> h_maxObjectSize (ap_handler app) \<and> h_maxObjectSize (ap_handler app) \<le> 5000000000
    \<and> st_bucket (fst (ap_s3 app)) = cfg_S3Bucket (ap_config app)
    \<and> 0 < st_ttl (fst (ap_s3 app)) \<and> st_ttl (fst (ap_s3 app)) \<le> 168 * hour"
proof -
  obtain a st where steps: "config_Load g order env = Inr (ap_config app)"
    "github_New g gh (github_config (ap_config app)) = Inr a" "s3_New sdk (s3_config (ap_config app)) = Inr st"
    "github_Validate g gh (a, w) = (Inr (), ap_github app)" "s3_Validate sdk (st, v) = (Inr (), ap_s3 app)"
    "cache_New AuthorizationCacheSize AuthorizationCacheTTL random = Inr (ap_cache app)"
    "ap_handler app = lfs_New (handler_options (ap_config app))"
    using startup_steps [OF assms(1)] by blast
  let ?c = "ap_config app"
  note valid = config_Load_Validate [OF steps(1), unfolded config_Validate_None [of order ?c g, OF assms(2)]]
  have same: "same_config a (fst (ap_github app))"
    using config.Validate_keeps [of a a g gh w] steps(4) by (metis prod.collapse same_config_refl)
  have trim: "trim_right_chars ''/'' ''https://api.github.com'' = ''https://api.github.com''" by code_simp
  have a: "allowedInstallationIDs a = set (cfg_GitHubAllowedInstallationIDs ?c)"
    "url_parse g ''https://api.github.com'' = Some (baseURL a)"
    using New_settings [OF steps(2)] trim by (simp_all add: github_config_def defaultAPIURL_def)
  have ids: "cfg_GitHubAllowedInstallationIDs ?c \<noteq> []" "\<forall>x \<in> set (cfg_GitHubAllowedInstallationIDs ?c). 0 < x"
    using valid by (auto simp: validate_ids_None list_all_iff)
  have st: "st_bucket (fst (ap_s3 app)) = cfg_S3Bucket ?c" "st_ttl (fst (ap_s3 app)) = cfg_PresignTTL ?c"
    using steps(3,5) s3_Validate_keeps [of sdk "(st, v)"]
    by (simp_all add: s3_New_def s3_newWithClient_def s3_config_def split: if_splits) (auto)
  have ranges: "0 < cfg_PresignTTL ?c" "cfg_PresignTTL ?c \<le> 168 * hour" "1 \<le> cfg_MaxObjectSize ?c"
    "cfg_MaxObjectSize ?c \<le> 5000000000"
    using valid by (auto simp: check_ranges_def MaximumMaxObjectSize_def split: if_splits)
  obtain key where "ap_cache app = newWithClock 10000 minute key"
    using cache_New_ok [OF steps(6)] by (auto simp: AuthorizationCacheSize_def AuthorizationCacheTTL_def)
  then show ?thesis
    using steps(1,7) a ids st ranges same
    by (auto simp: same_config_def lfs_New_def handler_options_def ObjectCheckConcurrency_def)
qed

definition outside1 :: "time outside" where
  "outside1 = outside0\<lparr>client_Do := (\<lambda>q t. (Some \<lparr>StatusCode = 200, api_Header = (\<lambda>_. []),
     api_Body = text_stream (json_text (if api_URL q = ''https://api.github.com/app'' then JObj [(''client_id'', JStr ''Iv1'')]
       else JObj [(''id'', JNum ''42'')]))\<rparr>, t))\<rparr>"

lemma startup0: "is_ok (startup lib0 (\<lambda>xs. xs) env0 outside1 0 sdk0 () (Some ''s''))"
  by code_simp

lemma startup_wires_components_witness:
  "\<exists>app. startup lib0 (\<lambda>xs. xs) env0 outside1 0 sdk0 () (Some ''s'') = Inr app \<and> h_concurrency (ap_handler app) = 16"
proof -
  obtain app where app: "startup lib0 (\<lambda>xs. xs) env0 outside1 0 sdk0 () (Some ''s'') = Inr app"
    using startup0 by (auto simp: is_ok_def split: sum.splits)
  from startup_wires_components [OF app] app show ?thesis by simp
qed

subsection \<open>Requests through all layers\<close>

lemma status_first_writes [simp]:
  "status_first (writeJSON c p)" "status_first (writeError i c m)" "status_first (writeAuthenticationError i m)"
  "status_first (writeForgeError i e)" "status_first (http_Error m c)"
  by (simp_all add: write_defs http_Error_def)

lemma handlers_status_first [simp]:
  "status_first (fst (batch g env h i r s))" "status_first (fst (verify g env h i r s))"
  by (auto simp: batch_def verify_def Let_def split: sum.split option.split prod.split)

text \<open>
  Every request to the public listener is answered by what its handler wrote behind the
  middleware, with the request ID in the header, and counted exactly once, under its route,
  method and the very status the client received.
\<close>

theorem public_request_counted:
  assumes "status_first redirect"
  shows "let ops = Middleware i (\<lambda>ctx. (fst (serve_dispatch g redirect env h (RequestID ctx) r
             (publicMux (req_Method r) escaped) s), False));
           out = publicHandler g redirect env h i escaped period r m s in
     snd (fst out) = run_writes ops empty_response
     \<and> HTTPRequests (fst (fst out)) = inc [''public'', route_label (req_Path r), req_Method r,
           format_int (final_status (run_writes ops empty_response))] (HTTPRequests m)"
proof -
  let ?ops = "Middleware i (\<lambda>ctx. (fst (serve_dispatch g redirect env h (RequestID ctx) r
             (publicMux (req_Method r) escaped) s), False))"
  have "status_first ?ops"
    using assms by (auto simp: Middleware_def serve_dispatch_def Let_def split: dispatch.split)
  from recorder_transparent [OF this, of "new_recorder empty_response"]
  show ?thesis
    by (simp add: publicHandler_def routeMetrics_def Instrument_def new_recorder_def empty_response_def Let_def split_def)
qed

lemma public_request_counted_witness:
  "HTTPRequests (fst (fst (publicHandler lib0 [] env1 handler0 ''id'' ''/nothing'' (0, 5) request0 metrics_New server0)))
     [''public'', route_label (req_Path request0), ''POST'', format_int 404] = 1"
proof -
  have "status_first ([] :: ops)" by simp
  from public_request_counted [OF this, of "''id''" lib0 env1 handler0 request0 "''/nothing''" server0 "(0, 5)" metrics_New]
  show ?thesis
    by (simp add: Let_def Middleware_def serve_dispatch_def publicMux_def clean_path_def has_prefix_def http_Error_def run_defs
        metrics_New_def inc_def request0_def)
qed

lemma path_unescape_slash:
  "path_unescape (s @ CHR ''/'' # t) =
     (case (path_unescape s, path_unescape t) of (Some x, Some y) \<Rightarrow> Some (x @ CHR ''/'' # y) | _ \<Rightarrow> None)"
proof (induction s rule: path_unescape.induct)
  case (2 c s)
  show ?case
  proof (cases "c = CHR ''%''")
    case True
    consider "s = []" | x where "s = [x]" | x y z where "s = x # y # z" by (metis list.exhaust)
    then show ?thesis
    proof cases
      case 1
      then show ?thesis using True by (cases t) (auto simp: hex_value_def split: option.splits)
    next
      case (2 x)
      then show ?thesis using True by (auto simp: hex_value_def split: option.splits)
    next
      case (3 x y z)
      then show ?thesis using True "2.IH"(1) by (auto split: option.splits)
    qed
  next
    case False
    then show ?thesis using "2.IH"(2) by (auto split: option.splits)
  qed
qed (simp split: option.splits)

lemma unescaped_suffix:
  assumes "path_unescape (x @ CHR ''/'' # y) = Some p"
  shows "\<exists>q. path_unescape x = Some q \<and> p = q @ CHR ''/'' # unescaped y"
  using assms by (auto simp: path_unescape_slash unescaped_def split: option.splits)

text \<open>
  Routes are labelled by what serves them: a request the mux hands to the batch or verify
  handler is a POST, is counted as batch or verify, and its two path values are the unescaped
  segments of the path, so a value can contain a slash.
\<close>

theorem dispatched_route_label:
  assumes "path_unescape escaped = Some p" and "publicMux meth escaped \<in> {ServeBatch owner repo, ServeVerify owner repo}"
  shows "meth = ''POST'' \<and> route_label p = (if publicMux meth escaped = ServeBatch owner repo then ''batch'' else ''verify'')
    \<and> (\<exists>z site x y a b c verb. split_on (CHR ''/'') escaped = [z, site, x, y, a, b, c, verb]
        \<and> owner = unescaped x \<and> repo = unescaped y)"
proof -
  let ?segs = "split_on (CHR ''/'') escaped"
  obtain site x y a b c verb where tl: "tl ?segs = [site, x, y, a, b, c, verb]"
    and m: "meth = ''POST''" "unescaped a = ''info''" "unescaped b = ''lfs''" "unescaped c = ''objects''"
      "owner = unescaped x" "repo = unescaped y"
      "publicMux meth escaped = (if unescaped verb = ''batch'' then ServeBatch owner repo else ServeVerify owner repo)"
      "unescaped verb = ''batch'' \<or> unescaped verb = ''verify''"
    using assms(2) by (auto simp: publicMux_def lfs_tail_def Let_def map_eq_Cons_conv split: if_splits list.splits)
  obtain z where segs: "?segs = [z, site, x, y, a, b, c, verb]"
    using tl by (metis list.collapse split_on_nonempty)
  let ?k = "CHR ''/''"
  have "escaped = ((((z @ ?k # site @ ?k # x @ ?k # y) @ ?k # a) @ ?k # b) @ ?k # c) @ ?k # verb"
    using join_split [of ?k escaped] segs by simp
  with assms(1) obtain q where "p = (((q @ ?k # unescaped a) @ ?k # unescaped b) @ ?k # unescaped c) @ ?k # unescaped verb"
    by (metis (no_types) unescaped_suffix)
  then have "p = q @ ''/info/lfs/objects/'' @ unescaped verb" by (simp add: m)
  then have "route_label p = (if unescaped verb = ''batch'' then ''batch'' else ''verify'')"
    using m(8) by (auto simp: route_label_def has_suffix_iff)
      (auto simp: suffix_def dest!: arg_cong [of _ _ last])
  then show ?thesis using m segs by auto
qed

lemma dispatched_route_label_witness:
  "publicMux ''POST'' ''/github.com/a%2Fb/c/info/lfs/objects/batch'' = ServeBatch ''a/b'' ''c''
   \<and> route_label ''/github.com/a/b/c/info/lfs/objects/batch'' = ''batch''"
proof -
  have d: "publicMux ''POST'' ''/github.com/a%2Fb/c/info/lfs/objects/batch'' = ServeBatch ''a/b'' ''c''"
    "path_unescape ''/github.com/a%2Fb/c/info/lfs/objects/batch'' = Some ''/github.com/a/b/c/info/lfs/objects/batch''"
    by code_simp+
  from dispatched_route_label [OF d(2), of "''POST''" "''a/b''" "''c''"] d(1) show ?thesis by simp
qed

end
