(* ===== verification/Golfs_Process.thy ===== *)
theory Golfs_Process
  imports Golfs_Server
begin

section \<open>Command golfs: the operations listener and the life of the process\<close>

text \<open>
  \<^verbatim>\<open>cmd/golfs/main.go\<close>, from the operations listener to the exit status. The steps of run are
  a relation of their own, one constructor per statement that other parts can observe: the two
  goroutines are started, the readiness flag is stored, the signals are registered, select
  takes what is there, the servers are shut down in order. Listeners that fail and signals are
  steps of the outside. A signal before the registration ends the process at once.
\<close>

subsection \<open>The operations listener\<close>

definition healthz :: ops where
  "healthz = [WriteHeader 200, Write (TextPayload (''ok'' @ [CHR 0x0A]))]"

definition readyz :: "bool \<Rightarrow> ops" where
  "readyz ready =
     (if \<not> ready then http_Error ''not ready'' 503
      else [WriteHeader 200, Write (TextPayload (''ready'' @ [CHR 0x0A]))])"

datatype admin_dispatch =
    Healthz
  | Readyz
  | MetricsPage
  | AdminRedirect
  | AdminMethodNotAllowed
  | AdminPageNotFound
  | AdminBadRequest

text \<open>A pattern with the method GET also matches HEAD.\<close>

definition adminMux :: "string \<Rightarrow> string \<Rightarrow> admin_dispatch" where
  "adminMux meth escaped =
     (if escaped = ''*'' then AdminBadRequest
      else if meth \<noteq> ''CONNECT'' \<and> \<not> clean_path escaped then AdminRedirect
      else case map unescaped (tl (split_on (CHR ''/'') escaped)) of
        [name] \<Rightarrow>
          if name \<in> {''healthz'', ''readyz'', ''metrics''} then
            (if meth \<notin> {''GET'', ''HEAD''} then AdminMethodNotAllowed
             else if name = ''healthz'' then Healthz
             else if name = ''readyz'' then Readyz else MetricsPage)
          else AdminPageNotFound
      | _ \<Rightarrow> AdminPageNotFound)"

text \<open>\<open>page\<close> are the calls of promhttp's handler.\<close>

definition serve_admin :: "ops \<Rightarrow> ops \<Rightarrow> bool \<Rightarrow> admin_dispatch \<Rightarrow> ops" where
  "serve_admin redirect page ready d =
     (case d of
        Healthz \<Rightarrow> healthz
      | Readyz \<Rightarrow> readyz ready
      | MetricsPage \<Rightarrow> page
      | AdminRedirect \<Rightarrow> redirect
      | AdminMethodNotAllowed \<Rightarrow> SetHeader ''Allow'' ''GET, HEAD'' # http_Error ''Method Not Allowed'' 405
      | AdminPageNotFound \<Rightarrow> http_Error ''404 page not found'' 404
      | AdminBadRequest \<Rightarrow> [SetHeader ''Connection'' ''close'', WriteHeader 400])"

definition adminHandler ::
    "ops \<Rightarrow> ops \<Rightarrow> string \<Rightarrow> bool \<Rightarrow> string \<Rightarrow> time \<times> time \<Rightarrow> http_request \<Rightarrow> Metrics \<Rightarrow> Metrics \<times> payload response" where
  "adminHandler redirect page requestID ready escaped period r m =
     routeMetrics ''operations'' r period
       (Middleware requestID (\<lambda>ctx. (serve_admin redirect page ready (adminMux (req_Method r) escaped), False)))
       (m, empty_response)"

text \<open>A request of a kubelet or a load balancer: plain paths, no body.\<close>

definition probe :: "string \<Rightarrow> string \<Rightarrow> http_request" where
  "probe meth target = \<lparr>req_Method = meth, req_Path = target, req_owner = [], req_repository = [],
     req_Header = (\<lambda>_. []), req_Body = text_stream []\<rparr>"

definition probe_status :: "string \<Rightarrow> bool \<Rightarrow> string \<Rightarrow> int" where
  "probe_status requestID ready target =
     final_status (snd (adminHandler [] [] requestID ready target (0, 0) (probe ''GET'' target) metrics_New))"

lemma admin_status_first:
  "status_first redirect \<Longrightarrow> status_first page \<Longrightarrow> status_first (serve_admin redirect page ready d)"
  by (cases d) (simp_all add: serve_admin_def healthz_def readyz_def http_Error_def)

lemma admin_targets:
  "adminMux ''GET'' ''/healthz'' = Healthz" "adminMux ''GET'' ''/readyz'' = Readyz" "adminMux ''GET'' ''/metrics'' = MetricsPage"
  by code_simp+

lemma probe_answers:
  "probe_status requestID ready ''/healthz'' = 200"
  "probe_status requestID ready ''/readyz'' = (if ready then 200 else 503)"
  by (simp_all add: probe_status_def adminHandler_def routeMetrics_def Instrument_def Middleware_def probe_def
      serve_admin_def admin_targets healthz_def readyz_def http_Error_def run_defs new_recorder_def
      recorder_WriteHeader_def Let_def)

text \<open>
  What the operations listener answers: 200 for health and readiness, 503 for readiness while
  not ready, and otherwise an error, for any other method and path; and every request of it is
  counted once under its route, its method and the status that was sent.
\<close>

theorem admin_request_answered:
  assumes "status_first redirect" and "status_first page"
  shows "let d = adminMux (req_Method r) escaped; out = adminHandler redirect page i ready escaped period r m in
      (d = Healthz \<longrightarrow> final_status (snd out) = 200)
      \<and> (d = Readyz \<longrightarrow> final_status (snd out) = (if ready then 200 else 503))
      \<and> (d \<in> {AdminMethodNotAllowed, AdminPageNotFound, AdminBadRequest} \<longrightarrow> final_status (snd out) \<in> {400, 404, 405})
      \<and> (d \<in> {Healthz, Readyz, MetricsPage} \<longrightarrow> req_Method r \<in> {''GET'', ''HEAD''})
      \<and> HTTPRequests (fst out) = inc [''operations'', route_label (req_Path r), req_Method r,
           format_int (final_status (snd out))] (HTTPRequests m)"
proof -
  let ?d = "adminMux (req_Method r) escaped"
  let ?ops = "Middleware i (\<lambda>ctx. (serve_admin redirect page ready ?d, False))"
  have "status_first ?ops" using admin_status_first [OF assms] by (simp add: Middleware_def)
  from instrument_truthful [OF this, of "''operations''" "route_label (req_Path r)" "req_Method r" period m]
  have out: "snd (adminHandler redirect page i ready escaped period r m) = run_writes ?ops empty_response"
    "HTTPRequests (fst (adminHandler redirect page i ready escaped period r m))
      = inc [''operations'', route_label (req_Path r), req_Method r, format_int (final_status (run_writes ?ops empty_response))] (HTTPRequests m)"
    by (simp_all add: adminHandler_def routeMetrics_def)
  have get: "req_Method r \<in> {''GET'', ''HEAD''}" if "?d \<in> {Healthz, Readyz, MetricsPage}"
    using that by (auto simp: adminMux_def split: list.splits if_splits)
  have "final_status (run_writes ?ops empty_response)
      = final_status (run_writes (serve_admin redirect page ready ?d) (do_write empty_response (SetHeader ''X-Request-ID'' i)))"
    by (simp add: Middleware_def)
  moreover have "final_status (run_writes (serve_admin redirect page ready d) (do_write empty_response (SetHeader ''X-Request-ID'' i)))
      \<in> (case d of Healthz \<Rightarrow> {200} | Readyz \<Rightarrow> {if ready then 200 else 503} | MetricsPage \<Rightarrow> UNIV | AdminRedirect \<Rightarrow> UNIV | _ \<Rightarrow> {400, 404, 405})" for d
    by (cases d) (simp_all add: serve_admin_def healthz_def readyz_def http_Error_def run_defs)
  note this [of ?d]
  ultimately show ?thesis using get out unfolding Let_def by (cases ?d) simp_all
qed

lemma admin_request_answered_witness:
  "final_status (snd (adminHandler [] [] ''id'' False ''/readyz'' (0, 0) (probe ''GET'' ''/readyz'') metrics_New)) = 503"
proof -
  have "status_first ([] :: ops)" by simp
  from admin_request_answered [OF this this, of "probe ''GET'' ''/readyz''" "''/readyz''" "''id''" False "(0, 0)" metrics_New]
  show ?thesis using admin_targets(2) by (simp add: probe_def Let_def)
qed

subsection \<open>Servers\<close>

record http_server =
  srv_Addr :: string
  srv_ReadHeaderTimeout :: duration
  srv_ReadTimeout :: duration
  srv_WriteTimeout :: duration
  srv_IdleTimeout :: duration
  srv_MaxHeaderBytes :: int

definition golfs_server :: "string \<Rightarrow> http_server" where
  "golfs_server address = \<lparr>srv_Addr = address, srv_ReadHeaderTimeout = 10 * second, srv_ReadTimeout = 30 * second,
     srv_WriteTimeout = 30 * second, srv_IdleTimeout = 2 * minute, srv_MaxHeaderBytes = 2 ^ 20\<rparr>"

text \<open>ListenAndServe always returns an error; the one that only says the server was closed is dropped.\<close>

definition serve_result :: "bool \<Rightarrow> err \<Rightarrow> err list" where
  "serve_result closed e = (if closed then [] else [e])"


subsection \<open>The life of the process\<close>

datatype listener = Serving | Broken | Down

text \<open>How far run has come: the statement it is about to make.\<close>

datatype phase =
    Launching
  | PublicStarted
  | BothStarted
  | Announced
  | Selecting
  | Draining
  | PublicDown
  | Finished
  | Killed

record process =
  pr_phase :: phase
  pr_ready :: bool
  pr_public :: listener
  pr_admin :: listener
  pr_errors :: "err list"
  pr_signal :: bool
  pr_runError :: "err option"
  pr_result :: "err list"

definition process_start :: process where
  "process_start = \<lparr>pr_phase = Launching, pr_ready = False, pr_public = Down, pr_admin = Down,
     pr_errors = [], pr_signal = False, pr_runError = None, pr_result = []\<rparr>"

text \<open>
  Shutting a server down ends its listener; a listener that failed stays as it is. The result
  of run is the join of the three errors that are not nil, and main exits with status 1 if it
  is not nil.
\<close>

definition stop_listener :: "listener \<Rightarrow> listener" where
  "stop_listener l = (case l of Serving \<Rightarrow> Down | _ \<Rightarrow> l)"

definition opt_list :: "'a option \<Rightarrow> 'a list" where
  "opt_list x = (case x of None \<Rightarrow> [] | Some v \<Rightarrow> [v])"

definition exit_status :: "err list \<Rightarrow> int" where
  "exit_status errors = (if errors = [] then 0 else 1)"

inductive run_step :: "process \<Rightarrow> process \<Rightarrow> bool" where
  start_public: "pr_phase s = Launching \<Longrightarrow> run_step s (s\<lparr>pr_phase := PublicStarted, pr_public := Serving\<rparr>)"
| start_admin: "pr_phase s = PublicStarted \<Longrightarrow> run_step s (s\<lparr>pr_phase := BothStarted, pr_admin := Serving\<rparr>)"
| store_ready: "pr_phase s = BothStarted \<Longrightarrow> run_step s (s\<lparr>pr_phase := Announced, pr_ready := True\<rparr>)"
| notify: "pr_phase s = Announced \<Longrightarrow> run_step s (s\<lparr>pr_phase := Selecting\<rparr>)"
| select_signal: "pr_phase s = Selecting \<Longrightarrow> pr_signal s \<Longrightarrow>
     run_step s (s\<lparr>pr_phase := Draining, pr_ready := False, pr_signal := False\<rparr>)"
| select_error: "pr_phase s = Selecting \<Longrightarrow> pr_errors s = e # es \<Longrightarrow>
     run_step s (s\<lparr>pr_phase := Draining, pr_ready := False, pr_errors := es, pr_runError := Some e\<rparr>)"
| shutdown_public: "pr_phase s = Draining \<Longrightarrow>
     run_step s (s\<lparr>pr_phase := PublicDown, pr_public := stop_listener (pr_public s),
       pr_result := opt_list (pr_runError s) @ opt_list publicError\<rparr>)"
| shutdown_admin: "pr_phase s = PublicDown \<Longrightarrow>
     run_step s (s\<lparr>pr_phase := Finished, pr_admin := stop_listener (pr_admin s),
       pr_result := pr_result s @ opt_list adminError\<rparr>)"

text \<open>The signal channel has one place; a signal that finds it taken is dropped.\<close>

inductive outside_step :: "process \<Rightarrow> process \<Rightarrow> bool" where
  public_fails: "pr_phase s \<notin> {Finished, Killed} \<Longrightarrow> pr_public s = Serving \<Longrightarrow>
     outside_step s (s\<lparr>pr_public := Broken, pr_errors := pr_errors s @ serve_result False e\<rparr>)"
| admin_fails: "pr_phase s \<notin> {Finished, Killed} \<Longrightarrow> pr_admin s = Serving \<Longrightarrow>
     outside_step s (s\<lparr>pr_admin := Broken, pr_errors := pr_errors s @ serve_result False e\<rparr>)"
| signal: "pr_phase s \<in> {Selecting, Draining, PublicDown} \<Longrightarrow> outside_step s (s\<lparr>pr_signal := True\<rparr>)"
| kill: "pr_phase s \<in> {Launching, PublicStarted, BothStarted, Announced} \<Longrightarrow>
     outside_step s (s\<lparr>pr_phase := Killed, pr_ready := False, pr_public := Down, pr_admin := Down, pr_errors := []\<rparr>)"

definition process_step :: "process \<Rightarrow> process \<Rightarrow> bool" where
  "process_step s t = (run_step s t \<or> outside_step s t)"

inductive process_reachable :: "process \<Rightarrow> bool" where
  at_start: "process_reachable process_start"
| onward: "process_reachable s \<Longrightarrow> process_step s t \<Longrightarrow> process_reachable t"

inductive_cases run_stepE: "run_step s t"
inductive_cases outside_stepE: "outside_step s t"

subsection \<open>Readiness and shutdown\<close>

fun broken :: "listener \<Rightarrow> nat" where
  "broken Broken = 1"
| "broken l = 0"

definition process_inv :: "process \<Rightarrow> bool" where
  "process_inv s =
     ((pr_ready s \<longleftrightarrow> pr_phase s \<in> {Announced, Selecting})
      \<and> (pr_phase s = Launching \<longrightarrow> pr_public s = Down)
      \<and> (pr_phase s \<in> {Launching, PublicStarted} \<longrightarrow> pr_admin s = Down)
      \<and> (pr_phase s \<in> {PublicStarted, BothStarted, Announced, Selecting, Draining} \<longrightarrow> pr_public s \<noteq> Down)
      \<and> (pr_phase s \<in> {BothStarted, Announced, Selecting, Draining, PublicDown} \<longrightarrow> pr_admin s \<noteq> Down)
      \<and> (pr_phase s \<in> {PublicDown, Finished, Killed} \<longrightarrow> pr_public s \<noteq> Serving)
      \<and> (pr_phase s \<in> {PublicDown, Finished} \<longrightarrow> set (opt_list (pr_runError s)) \<subseteq> set (pr_result s))
      \<and> (pr_phase s \<in> {Finished, Killed} \<longrightarrow> pr_admin s \<noteq> Serving)
      \<and> (pr_phase s \<in> {Launching, PublicStarted, BothStarted, Announced, Selecting, Killed} \<longrightarrow> pr_runError s = None)
      \<and> (pr_phase s \<in> {Launching, PublicStarted, BothStarted, Announced} \<longrightarrow> \<not> pr_signal s)
      \<and> length (pr_errors s) + length (opt_list (pr_runError s)) = broken (pr_public s) + broken (pr_admin s))"

lemma broken_stop [simp]: "broken (stop_listener l) = broken l"
  by (cases l) (simp_all add: stop_listener_def)

lemma stop_listener_not_serving [simp]: "stop_listener l \<noteq> Serving"
  by (cases l) (simp_all add: stop_listener_def)

lemma opt_list_simps [simp]: "opt_list None = []" "opt_list (Some v) = [v]"
  by (simp_all add: opt_list_def)

lemma run_step_inv: "run_step s t \<Longrightarrow> process_inv s \<Longrightarrow> process_inv t"
  by (erule run_stepE; clarsimp simp: process_inv_def; blast?)

lemma outside_step_inv: "outside_step s t \<Longrightarrow> process_inv s \<Longrightarrow> process_inv t"
  by (erule outside_stepE; cases "pr_phase s"; clarsimp simp: process_inv_def serve_result_def)

lemma process_inv_reachable: "process_reachable s \<Longrightarrow> process_inv s"
proof (induction rule: process_reachable.induct)
  case at_start
  show ?case by (simp add: process_inv_def process_start_def opt_list_def)
qed (auto simp: process_step_def intro: run_step_inv outside_step_inv)


lemmas run_onward = onward [OF _ disjI1 [THEN process_step_def [THEN iffD2]]]
lemmas outside_onward = onward [OF _ disjI2 [THEN process_step_def [THEN iffD2]]]

definition ready_process :: process where
  "ready_process = process_start\<lparr>pr_phase := Selecting, pr_public := Serving, pr_admin := Serving, pr_ready := True\<rparr>"

lemma ready_process_reachable: "process_reachable ready_process"
proof -
  note one = run_onward [OF at_start start_public]
  note two = run_onward [OF one start_admin]
  note three = run_onward [OF two store_ready]
  note four = run_onward [OF three notify]
  show ?thesis using four by (simp add: process_start_def ready_process_def)
qed


text \<open>
  A signal or a failed listener always leads to the end: from a ready state with either
  pending, run itself takes three steps, which end the readiness, then the public listener,
  then the operations listener. If both shutdowns return without an error, the exit status is
  0 exactly when no listener's error had been taken.
\<close>

theorem shutdown_completes:
  assumes "process_reachable s" and "pr_phase s = Selecting" and "pr_signal s \<or> pr_public s = Broken \<or> pr_admin s = Broken"
  shows "\<exists>t u v. run_step s t \<and> run_step t u \<and> run_step u v
    \<and> pr_phase v = Finished \<and> \<not> pr_ready t \<and> \<not> pr_ready v \<and> pr_public u \<noteq> Serving \<and> pr_admin v \<noteq> Serving
    \<and> (exit_status (pr_result v) = 0 \<longleftrightarrow> pr_runError v = None)"
proof -
  have inv: "process_inv s" using assms(1) by (rule process_inv_reachable)
  have "\<exists>t. run_step s t \<and> pr_phase t = Draining \<and> \<not> pr_ready t"
  proof (cases "pr_signal s")
    case True
    show ?thesis by (intro exI conjI, rule select_signal [OF assms(2) True]) simp_all
  next
    case False
    then have "pr_errors s \<noteq> []" using assms(2,3) inv by (auto simp: process_inv_def)
    then obtain e es where "pr_errors s = e # es" by (cases "pr_errors s") auto
    from select_error [OF assms(2) this] show ?thesis by (intro exI conjI) (assumption, simp_all)
  qed
  then obtain t where t: "run_step s t" "pr_phase t = Draining" "\<not> pr_ready t" by blast
  let ?u = "t\<lparr>pr_phase := PublicDown, pr_public := stop_listener (pr_public t),
       pr_result := opt_list (pr_runError t) @ opt_list None\<rparr>"
  let ?v = "?u\<lparr>pr_phase := Finished, pr_admin := stop_listener (pr_admin ?u),
       pr_result := pr_result ?u @ opt_list None\<rparr>"
  have "run_step t ?u" by (rule shutdown_public [OF t(2)])
  moreover have "run_step ?u ?v" by (rule shutdown_admin) simp
  moreover have "exit_status (pr_result ?v) = 0 \<longleftrightarrow> pr_runError ?v = None"
    by (cases "pr_runError t") (simp_all add: exit_status_def)
  ultimately show ?thesis using t by (intro exI [of _ t] exI [of _ ?u] exI [of _ ?v]) simp
qed

lemma shutdown_completes_witness:
  "\<exists>v. run_step (ready_process\<lparr>pr_signal := True\<rparr>) v \<and> \<not> pr_ready v"
proof -
  have "process_reachable (ready_process\<lparr>pr_signal := True\<rparr>)"
    by (rule outside_onward [OF ready_process_reachable signal]) (simp add: ready_process_def)
  from shutdown_completes [OF this] show ?thesis by (auto simp: ready_process_def)
qed

fun stage :: "phase \<Rightarrow> nat" where
  "stage Launching = 7"
| "stage PublicStarted = 6"
| "stage BothStarted = 5"
| "stage Announced = 4"
| "stage Selecting = 3"
| "stage Draining = 2"
| "stage PublicDown = 1"
| "stage Finished = 0"
| "stage Killed = 0"

text \<open>A history that counts the steps run makes itself.\<close>

inductive process_history :: "nat \<Rightarrow> process \<Rightarrow> bool" where
  begins: "process_history 0 process_start"
| runs: "process_history n s \<Longrightarrow> run_step s t \<Longrightarrow> process_history (Suc n) t"
| meanwhile: "process_history n s \<Longrightarrow> outside_step s t \<Longrightarrow> process_history n t"

lemma history_reachable: "process_history n s \<Longrightarrow> process_reachable s"
  by (induction rule: process_history.induct) (auto simp: process_step_def intro: at_start onward)

lemma history_stage: "process_history n s \<Longrightarrow> n + stage (pr_phase s) \<le> 7"
proof (induction rule: process_history.induct)
  case begins
  show ?case by (simp add: process_start_def)
next
  case (runs n s t)
  from runs(2) have "Suc (stage (pr_phase t)) \<le> stage (pr_phase s)" by (rule run_stepE) simp_all
  then show ?case using runs.IH by simp
next
  case (meanwhile n s t)
  from meanwhile(2) have "stage (pr_phase t) \<le> stage (pr_phase s)" by (rule outside_stepE) simp_all
  then show ?case using meanwhile.IH by simp
qed

text \<open>
  C33. Whatever listeners and signals do, run makes at most seven steps, and it is never stuck: it
  can make its next step unless it has ended, was killed before it listened to signals, or
  waits in select with no signal, no error, and both listeners serving.
\<close>

theorem run_never_stuck:
  assumes "process_history n s"
  shows "n \<le> 7 \<and> ((\<exists>t. run_step s t) \<or> pr_phase s \<in> {Finished, Killed}
    \<or> pr_phase s = Selecting \<and> \<not> pr_signal s \<and> pr_errors s = [] \<and> pr_public s = Serving \<and> pr_admin s = Serving)"
proof -
  have inv: "process_inv s" by (rule process_inv_reachable [OF history_reachable [OF assms]])
  have "n \<le> 7" using history_stage [OF assms] by simp
  moreover have "(\<exists>t. run_step s t) \<or> pr_phase s \<in> {Finished, Killed}
    \<or> pr_phase s = Selecting \<and> \<not> pr_signal s \<and> pr_errors s = [] \<and> pr_public s = Serving \<and> pr_admin s = Serving"
  proof (cases "pr_phase s")
    case Selecting
    show ?thesis
    proof (cases "pr_signal s \<or> pr_errors s \<noteq> []")
      case True
      then show ?thesis using select_signal [OF Selecting] select_error [OF Selecting] by (cases "pr_errors s") blast+
    next
      case False
      then have "broken (pr_public s) + broken (pr_admin s) = 0" "pr_public s \<noteq> Down" "pr_admin s \<noteq> Down"
        using inv Selecting by (auto simp: process_inv_def)
      then show ?thesis using False Selecting by (cases "pr_public s"; cases "pr_admin s") simp_all
    qed
  qed (blast intro: run_step.intros)+
  ultimately show ?thesis ..
qed

lemma run_never_stuck_witness: "\<exists>t. run_step process_start t"
  using run_never_stuck [OF begins] by (simp add: process_start_def)

end
