(* ===== verification/Metric_Labels.thy ===== *)
theory Metric_Labels
  imports Golfs_Process
begin

section \<open>The series behind the metrics\<close>

text \<open>
  A Prometheus vector holds one series for each list of label values it was ever counted under.
  This theory says which lists those are, over all components: startup, the requests of both
  listeners and the calls of the store, in any order. The vocabulary of every vector is
  fixed by the code, except that the HTTP vectors carry the method of the request.
\<close>

subsection \<open>Series\<close>

definition counted :: "counter_vec \<Rightarrow> string list set" where
  "counted v = {ls. v ls \<noteq> 0}"

lemma counted_inc [simp]: "counted (inc ls v) = insert ls (counted v)"
  by (auto simp: counted_def inc_apply)

lemma counted_New [simp]: "counted (\<lambda>_. 0) = {}"
  by (simp add: counted_def)

definition observed :: "histogram_vec \<Rightarrow> string list set" where
  "observed h = {ls. h ls \<noteq> []}"

lemma observed_observe [simp]: "observed (observe ls d h) = insert ls (observed h)"
  by (auto simp: observed_def observe_apply)

lemma observed_New [simp]: "observed (\<lambda>_. []) = {}"
  by (simp add: observed_def)

text \<open>The label lists that take their values, position by position, from given sets.\<close>

fun label_lists :: "string set list \<Rightarrow> string list set" where
  "label_lists [] = {[]}"
| "label_lists (X # Xs) = {x # ls | x ls. x \<in> X \<and> ls \<in> label_lists Xs}"

lemma label_lists_Cons [simp]: "x # ls \<in> label_lists (X # Xs) \<longleftrightarrow> x \<in> X \<and> ls \<in> label_lists Xs"
  by simp

declare label_lists.simps(2) [simp del]

lemma label_lists_length: "ls \<in> label_lists Xs \<Longrightarrow> length ls = length Xs"
  by (induction Xs arbitrary: ls) (auto simp: label_lists.simps(2))

lemma label_lists_mono: "list_all2 (\<subseteq>) Xs Ys \<Longrightarrow> label_lists Xs \<subseteq> label_lists Ys"
proof (induction rule: list_all2_induct)
  case (Cons X Xs Y Ys)
  then show ?case by (auto simp: label_lists.simps(2))
qed simp

lemma label_lists_finite:
  assumes "\<forall>X\<in>set Xs. finite X"
  shows "finite (label_lists Xs) \<and> card (label_lists Xs) = prod_list (map card Xs)"
  using assms
proof (induction Xs)
  case (Cons X Xs)
  have "label_lists (X # Xs) = (\<lambda>(x, ls). x # ls) ` (X \<times> label_lists Xs)" by (auto simp: label_lists.simps(2))
  moreover have "inj_on (\<lambda>(x, ls). x # ls) (X \<times> label_lists Xs)" by (auto simp: inj_on_def)
  ultimately show ?case using Cons by (simp add: card_image)
qed simp

subsection \<open>The vocabulary\<close>

definition lfs_labels :: "Metrics \<Rightarrow> bool" where
  "lfs_labels m = (counted (AuthCache m) \<subseteq> label_lists [{''hit'', ''miss''}]
     \<and> counted (VerifyResults m) \<subseteq> label_lists [{''success'', ''not_found'', ''mismatch'', ''unavailable''}]
     \<and> counted (BatchObjects m) \<subseteq> label_lists [{''upload'', ''download''},
         {''upload'', ''download'', ''exists'', ''not_found'', ''mismatch'', ''unavailable''}])"

definition gh_labels :: "Metrics \<Rightarrow> bool" where
  "gh_labels m = (counted (GitHubRequests m) \<subseteq> label_lists [gh_operations, request_statuses]
     \<and> observed (GitHubDuration m) \<subseteq> label_lists [gh_operations])"

definition s3_operations :: "string set" where
  "s3_operations = {''head_bucket'', ''head_object'', ''presign_put_object'', ''presign_get_object''}"

definition s3_labels :: "Metrics \<Rightarrow> bool" where
  "s3_labels m = (counted (S3Requests m) \<subseteq> label_lists [s3_operations, {''success'', ''not_found'', ''error''}]
     \<and> observed (S3Duration m) \<subseteq> label_lists [s3_operations])"

definition routes :: "string set" where
  "routes = {''batch'', ''verify'', ''healthz'', ''readyz'', ''metrics'', ''not_found''}"

text \<open>
  The statuses the code writes itself; \<open>lib\<close> are those the library writes: redirects of a
  ServeMux, the handler of the metrics page.
\<close>

definition own_codes :: "int set" where
  "own_codes = {200, 400, 401, 403, 404, 405, 406, 413, 415, 422, 429, 503}"

definition http_labels :: "int set \<Rightarrow> string set \<Rightarrow> Metrics \<Rightarrow> bool" where
  "http_labels lib methods m = (let ends = {''public'', ''operations''} in
     counted (HTTPRequests m) \<subseteq> label_lists [ends, routes, methods, format_int ` (own_codes \<union> lib)]
     \<and> observed (HTTPDuration m) \<subseteq> label_lists [ends, routes, methods])"

lemma labels_New [simp]:
  "lfs_labels metrics_New" "gh_labels metrics_New" "s3_labels metrics_New" "http_labels lib methods metrics_New"
  by (simp_all add: lfs_labels_def gh_labels_def s3_labels_def http_labels_def metrics_New_def)

text \<open>Every list of the vocabulary has as many values as its vector has labels.\<close>

definition declared :: "string \<Rightarrow> nat" where
  "declared name = (case find (\<lambda>c. collector_name c = name) (golfs_collectors [] []) of
     Some c \<Rightarrow> length (collector_labels c) | None \<Rightarrow> 0)"

lemma declared_simps:
  "declared ''golfs_http_requests_total'' = 4" "declared ''golfs_http_request_duration_seconds'' = 3"
  "declared ''golfs_auth_cache_requests_total'' = 1" "declared ''golfs_verify_results_total'' = 1"
  "declared ''golfs_batch_objects_total'' = 2" "declared ''golfs_github_requests_total'' = 2"
  "declared ''golfs_github_request_duration_seconds'' = 1" "declared ''golfs_s3_requests_total'' = 2"
  "declared ''golfs_s3_request_duration_seconds'' = 1"
  by code_simp+

subsection \<open>Each component keeps to its words\<close>

lemma observeAuth_labels:
  "pred_option lfs_labels mo \<Longrightarrow> label \<in> {''hit'', ''miss''} \<Longrightarrow> pred_option lfs_labels (observeAuth label mo)"
  by (cases mo) (auto simp: observeAuth_def lfs_labels_def)

lemma observeObject_labels:
  "pred_option lfs_labels mo \<Longrightarrow> operation \<in> {''upload'', ''download''} \<Longrightarrow>
     pred_option lfs_labels (observeObject [operation, outcome ob] mo)"
  by (cases mo) (auto simp: observeObject_def lfs_labels_def outcome_def split: option.split)

lemma observeVerify_labels:
  "pred_option lfs_labels (sv_metrics s) \<Longrightarrow> label \<in> {''success'', ''not_found'', ''mismatch'', ''unavailable''} \<Longrightarrow>
     pred_option lfs_labels (sv_metrics (observeVerify label s))"
  by (cases "sv_metrics s") (auto simp: observeVerify_def lfs_labels_def)

lemma processObjects_labels:
  assumes "pred_option lfs_labels m" and "operation \<in> {''upload'', ''download''}"
  shows "pred_option lfs_labels (snd (processObjects h views operation repo owner nm auth input m))"
proof -
  have "pred_option lfs_labels (fold (\<lambda>i. observeObject (snd (object_work h views operation repo owner nm auth input i))) is m)" for "is"
    using assms(1)
    by (induction "is" arbitrary: m) (simp_all add: object_work_def label_is_outcome observeObject_labels [OF _ assms(2)])
  then show ?thesis by (simp add: processObjects_def Let_def)
qed

text \<open>Counting requests is all that touches the authorizer's counters.\<close>

interpretation labels: authorizer_invariant env "\<lambda>a. pred_option gh_labels (gh_metrics a)" for env
proof
  fix operation status a
  show "operation \<in> gh_operations \<Longrightarrow> status \<in> request_statuses \<Longrightarrow> pred_option gh_labels (gh_metrics a) \<Longrightarrow>
      gh_observe env operation status started (a, w) = (a', w') \<Longrightarrow> pred_option gh_labels (gh_metrics a')" for started w a' w'
    by (cases "gh_metrics a") (auto simp: gh_observe_def gh_labels_def split: prod.splits)
  show "pred_option gh_labels (gh_metrics a) \<Longrightarrow> signedAppJWT env (a, w) = (r, (a', w')) \<Longrightarrow>
      pred_option gh_labels (gh_metrics a')" for w r a' w'
    by (auto simp: signedAppJWT_def Let_def split: prod.splits if_splits option.splits)
qed

lemma lfs_authorize_labels:
  assumes "pred_option lfs_labels (sv_metrics s)" and "lfs_authorize g env owner repo token s = (r, s')"
  shows "pred_option lfs_labels (sv_metrics s')"
  using assms by (auto simp: lfs_authorize_def Let_def split: prod.splits option.splits sum.splits intro!: observeAuth_labels)

lemma batch_labels:
  assumes "pred_option lfs_labels (sv_metrics s)"
  shows "pred_option lfs_labels (sv_metrics (snd (batch g env h i r s)))"
proof (cases rule: batch_cases [of g env h i r s])
  case (granted input token auth s1)
  have "pred_option lfs_labels (sv_metrics s1)" by (rule lfs_authorize_labels [OF assms granted(2)])
  moreover have "br_Operation input \<in> {''upload'', ''download''}"
    using validated_operation [of g h input] granted(1) by (auto simp: batch_admissible_def)
  ultimately show ?thesis by (simp add: batch_granted_metrics [OF granted] processObjects_labels)
qed (use assms in \<open>auto dest: lfs_authorize_labels\<close>)

lemma verify_labels:
  assumes "pred_option lfs_labels (sv_metrics s)"
  shows "pred_option lfs_labels (sv_metrics (snd (verify g env h i r s)))"
proof -
  have auth: "pred_option lfs_labels (sv_metrics s1)"
    if "lfs_authorize g env owner repo token s = (x, s1)" for owner repo token x s1
    using lfs_authorize_labels [OF assms that] .
  show ?thesis using assms
    by (auto simp: verify_def split: sum.split option.split prod.split intro!: observeVerify_labels dest: auth)
qed

lemma serve_dispatch_labels:
  "pred_option lfs_labels (sv_metrics s) \<Longrightarrow> pred_option lfs_labels (sv_metrics (snd (serve_dispatch g redirect env h i r d s)))"
  by (cases d) (simp_all add: serve_dispatch_def batch_labels verify_labels)

text \<open>A request reaches GitHub through one authorization at most.\<close>

lemma lfs_authorize_world:
  "lfs_authorize g (golfs_env g gh sdk stores) owner repo token s = (r, s') \<Longrightarrow>
     sv_world s' = sv_world s \<or> (\<exists>p. Authorize g gh owner repo token (sv_world s) = (p, sv_world s'))"
  by (auto simp: lfs_authorize_def golfs_env_def Let_def split: prod.splits option.splits sum.splits)

lemma serve_dispatch_world:
  assumes "serve_dispatch g redirect (golfs_env g gh sdk stores) h i r d s = (ops, s')"
  shows "sv_world s' = sv_world s \<or> (\<exists>owner repo token p. Authorize g gh owner repo token (sv_world s) = (p, sv_world s'))"
  using assms by (cases d) (auto simp: serve_dispatch_def dest!: batch_state verify_state dest: lfs_authorize_world)

text \<open>Statuses.\<close>

definition codes_of :: "ops \<Rightarrow> int set" where
  "codes_of ops = {c. WriteHeader c \<in> set ops}"

lemma codes_of_simps [simp]:
  "codes_of [] = {}" "codes_of (WriteHeader c # ops) = insert c (codes_of ops)"
  "codes_of (SetHeader k v # ops) = codes_of ops" "codes_of (Write p # ops) = codes_of ops"
  "codes_of (ops @ ops') = codes_of ops \<union> codes_of ops'"
  by (auto simp: codes_of_def)

lemma run_recorder_status: "rec_status (run_recorder ops w) \<in> insert (rec_status w) (codes_of ops)"
proof (induction ops arbitrary: w)
  case (Cons op ops)
  have "rec_status (run_recorder ops (do_recorder_write w op)) \<in> insert (rec_status (do_recorder_write w op)) (codes_of ops)"
    by (rule Cons.IH)
  then show ?case by (cases op) (auto simp: recorder_WriteHeader_def split: if_splits)
qed simp

lemma writer_codes [simp]:
  "codes_of (writeJSON c p) = {c}" "codes_of (writeError i c m) = {c}" "codes_of (writeAuthenticationError i m) = {401}"
  "codes_of (http_Error m c) = {c}"
  by (simp_all add: writeJSON_def writeError_def writeAuthenticationError_def http_Error_def)

lemma handler_codes:
  "codes_of (fst (batch g env h i r s)) \<subseteq> own_codes" "codes_of (fst (verify g env h i r s)) \<subseteq> own_codes"
proof -
  have e: "codes_of (writeForgeError i e) \<subseteq> own_codes" "decode_status e \<in> own_codes" for e
    by (auto simp: writeForgeError_def decode_status_def own_codes_def)
  have c: "{200, 401, 403, 404, 406, 422, 503} \<subseteq> own_codes" by (simp add: own_codes_def)
  show "codes_of (fst (batch g env h i r s)) \<subseteq> own_codes"
    using e c by (simp add: batch_def split: sum.split option.split prod.split)
  show "codes_of (fst (verify g env h i r s)) \<subseteq> own_codes"
    using e c by (simp add: verify_def split: sum.split option.split prod.split)
qed

lemma dispatch_codes:
  "codes_of (fst (serve_dispatch g redirect env h i r d s)) \<subseteq> own_codes \<union> codes_of redirect"
proof -
  have "{400, 404, 405} \<subseteq> own_codes" by (simp add: own_codes_def)
  then show ?thesis
    using handler_codes by (cases d) (fastforce simp: serve_dispatch_def)+
qed

lemma admin_codes:
  "codes_of (serve_admin redirect page ready d) \<subseteq> own_codes \<union> codes_of redirect \<union> codes_of page"
  by (cases d) (auto simp: serve_admin_def healthz_def readyz_def own_codes_def)

lemma route_label_routes [simp]: "route_label p \<in> routes"
  by (simp add: route_label_def routes_def)

lemma routeMetrics_labels:
  assumes "http_labels lib methods m" and "listener \<in> {''public'', ''operations''}" and "codes_of ops \<subseteq> own_codes \<union> lib"
  shows "http_labels lib (insert (req_Method r) methods) (fst (routeMetrics listener r period ops (m, w)))"
proof -
  let ?code = "rec_status (run_recorder ops (new_recorder w))" and ?all = "insert (req_Method r) methods"
  let ?ends = "{''public'', ''operations''} :: string set"
  have code: "?code \<in> own_codes \<union> lib"
    using run_recorder_status [of ops "new_recorder w"] assms(3) by (auto simp: new_recorder_def own_codes_def)
  have "label_lists [?ends, routes, methods, format_int ` (own_codes \<union> lib)]
      \<subseteq> label_lists [?ends, routes, ?all, format_int ` (own_codes \<union> lib)]"
    "label_lists [?ends, routes, methods] \<subseteq> label_lists [?ends, routes, ?all]"
    by (rule label_lists_mono; auto)+
  then show ?thesis
    using assms(1,2) code by (auto simp: http_labels_def routeMetrics_def Instrument_def Let_def split_def)
qed

text \<open>The store.\<close>

lemma s3_operationsI [simp]:
  "''head_bucket'' \<in> s3_operations" "''head_object'' \<in> s3_operations" "''presign_put_object'' \<in> s3_operations"
  "''presign_get_object'' \<in> s3_operations"
  by (simp_all add: s3_operations_def)

inductive store_call :: "golib \<Rightarrow> 'v sdk \<Rightarrow> Store \<times> 'v \<Rightarrow> Store \<times> 'v \<Rightarrow> bool" for g sdk where
  validate: "s3_Validate sdk s = (r, t) \<Longrightarrow> store_call g sdk s t"
| head: "Head g sdk repo oid s = (r, t) \<Longrightarrow> store_call g sdk s t"
| upload: "PresignUpload g sdk repo oid n s = (r, t) \<Longrightarrow> store_call g sdk s t"
| download: "PresignDownload g sdk repo oid s = (r, t) \<Longrightarrow> store_call g sdk s t"

text \<open>A call of the store counts at most once.\<close>

lemma store_call_counts:
  "store_call g sdk s t \<Longrightarrow> fst t = fst s \<or>
     (\<exists>operation e started now. operation \<in> s3_operations \<and> fst t = s3_observe operation (s3_result e) started now (fst s))"
proof (induction rule: store_call.induct)
  case (validate s r t)
  then have "fst t = s3_observe ''head_bucket'' (s3_result (fst (sdk_HeadBucket sdk (st_bucket (fst s)) (snd s))))
      (sdk_now sdk (snd s)) (sdk_now sdk (snd (sdk_HeadBucket sdk (st_bucket (fst s)) (snd s)))) (fst s)"
    by (auto simp: s3_Validate_def Let_def split: option.splits prod.splits)
  then show ?case using s3_operationsI(1) by blast
next
  case (head repo oid s r t)
  then show ?case by (auto simp: Head_def Let_def split: sum.splits prod.splits) (metis s3_operationsI(2))+
next
  case (upload repo oid n s r t)
  then show ?case by (auto simp: PresignUpload_def Let_def split: sum.splits prod.splits) (metis s3_operationsI(3))+
next
  case (download repo oid s r t)
  then show ?case by (auto simp: PresignDownload_def Let_def split: sum.splits prod.splits) (metis s3_operationsI(4))+
qed

lemma s3_result_words: "s3_result e \<in> {''success'', ''not_found'', ''error''}"
  by (simp add: s3_result_def split: option.split)

lemma store_call_labels:
  assumes "store_call g sdk s t" and "pred_option s3_labels (st_metrics (fst s))"
  shows "pred_option s3_labels (st_metrics (fst t))"
  using store_call_counts [OF assms(1)] s3_result_words assms(2)
  by (cases "st_metrics (fst s)") (auto simp: s3_observe_def s3_labels_def)

subsection \<open>Everything a started process counts\<close>

text \<open>
  The states of a process from its startup on, with the methods its clients have used: the
  counters of the listeners, the protocol's server with the authorizer, and the store. Requests
  of both listeners and calls of the store come in any order; \<open>stores\<close> are the states a batch
  finds the store in, and the world may change between two requests.
\<close>

inductive served ::
    "golib \<Rightarrow> 'w outside \<Rightarrow> 'v sdk \<Rightarrow> int set \<Rightarrow> ('w, 'v) app \<Rightarrow> string set
     \<Rightarrow> Metrics \<Rightarrow> 'w gh_state server \<Rightarrow> Store \<times> 'v \<Rightarrow> bool"
  for g gh sdk lib app where
  started: "startup g order env gh w sdk v random = Inr app \<Longrightarrow>
     served g gh sdk lib app {} metrics_New (protocol_server app) (ap_s3 app)"
| public: "served g gh sdk lib app methods m s st \<Longrightarrow>
     publicHandler g redirect (golfs_env g gh sdk stores) (ap_handler app) i escaped period r m s = ((m', answer), s') \<Longrightarrow>
     codes_of redirect \<subseteq> lib \<Longrightarrow> served g gh sdk lib app (insert (req_Method r) methods) m' s' st"
| operations: "served g gh sdk lib app methods m s st \<Longrightarrow>
     adminHandler redirect page i ready escaped period r m = (m', answer) \<Longrightarrow>
     codes_of redirect \<union> codes_of page \<subseteq> lib \<Longrightarrow> served g gh sdk lib app (insert (req_Method r) methods) m' s st"
| storing: "served g gh sdk lib app methods m s st \<Longrightarrow> store_call g sdk st st' \<Longrightarrow>
     served g gh sdk lib app methods m s st'"
| elsewhere: "served g gh sdk lib app methods m s (t, v) \<Longrightarrow> sv_world s = (a, w) \<Longrightarrow>
     served g gh sdk lib app methods m (s\<lparr>sv_world := (a, w')\<rparr>) (t, v')"

lemma startup_reachable:
  assumes "startup g order env gh w sdk v random = Inr app"
  shows "gh_reachable g gh (github_config (ap_config app)) (ap_github app)"
    and "\<exists>st. st_metrics st = Some metrics_New \<and> store_call g sdk (st, v) (ap_s3 app)"
proof -
  obtain a st where steps: "github_New g gh (github_config (ap_config app)) = Inr a"
    "s3_New sdk (s3_config (ap_config app)) = Inr st" "github_Validate g gh (a, w) = (Inr (), ap_github app)"
    "s3_Validate sdk (st, v) = (Inr (), ap_s3 app)"
    using startup_steps [OF assms] by blast
  show "gh_reachable g gh (github_config (ap_config app)) (ap_github app)"
    using gh_reachable.validated [OF gh_reachable.created [OF steps(1)] steps(3)] .
  have "st_metrics st = Some metrics_New"
    using steps(2) by (auto simp: s3_New_def s3_newWithClient_def s3_config_def split: if_splits)
  then show "\<exists>st. st_metrics st = Some metrics_New \<and> store_call g sdk (st, v) (ap_s3 app)"
    using store_call.validate [OF steps(4)] by blast
qed

text \<open>What a request does to each part of the state.\<close>

lemma public_parts:
  assumes "publicHandler g redirect env h i escaped period r m s = ((m', answer), s')" and "codes_of redirect \<subseteq> lib"
  obtains ops where "m' = fst (routeMetrics ''public'' r period ops (m, empty_response))" "codes_of ops \<subseteq> own_codes \<union> lib"
    "s' = snd (serve_dispatch g redirect env h i r (publicMux (req_Method r) escaped) s)"
proof -
  let ?dispatch = "\<lambda>i. serve_dispatch g redirect env h i r (publicMux (req_Method r) escaped) s"
  let ?ops = "Middleware i (\<lambda>ctx. (fst (?dispatch (RequestID ctx)), False))"
  have "codes_of ?ops \<subseteq> own_codes \<union> lib"
    using dispatch_codes [of g redirect env h "RequestID (Some i)" r "publicMux (req_Method r) escaped" s] assms(2)
    by (auto simp: Middleware_def)
  moreover have "m' = fst (routeMetrics ''public'' r period ?ops (m, empty_response))" "s' = snd (?dispatch i)"
    using assms(1) by (auto simp: publicHandler_def Let_def dest: arg_cong [of _ _ "fst \<circ> fst"])
  ultimately show thesis using that by blast
qed

lemma admin_parts:
  assumes "adminHandler redirect page i ready escaped period r m = (m', answer)"
    and "codes_of redirect \<union> codes_of page \<subseteq> lib"
  obtains ops where "m' = fst (routeMetrics ''operations'' r period ops (m, empty_response))" "codes_of ops \<subseteq> own_codes \<union> lib"
proof -
  let ?ops = "Middleware i (\<lambda>ctx. (serve_admin redirect page ready (adminMux (req_Method r) escaped), False))"
  have "codes_of ?ops \<subseteq> own_codes \<union> lib" using admin_codes assms(2) by (fastforce simp: Middleware_def)
  moreover have "m' = fst (routeMetrics ''operations'' r period ?ops (m, empty_response))"
    using assms(1) by (auto simp: adminHandler_def dest: arg_cong [of _ _ fst])
  ultimately show thesis using that by blast
qed

text \<open>The authorizer of a served process is in one of its reachable states.\<close>

lemma served_authorizer:
  "served g gh sdk lib app methods m s st \<Longrightarrow> gh_reachable g gh (github_config (ap_config app)) (sv_world s)"
proof (induction rule: served.induct)
  case (started order env w v random)
  then show ?case using startup_reachable(1) by (simp add: protocol_server_def)
next
  case (public methods m s st redirect stores i escaped period r m' answer s')
  obtain ops where "serve_dispatch g redirect (golfs_env g gh sdk stores) (ap_handler app) i r
      (publicMux (req_Method r) escaped) s = (ops, s')"
    using public_parts [OF public.hyps(2,3)] by (metis prod.collapse)
  from serve_dispatch_world [OF this] public.IH show ?case by (auto intro: gh_reachable.authorized)
next
  case (elsewhere methods m s t v a w w' v')
  then show ?case by (auto intro: gh_reachable.elsewhere)
qed simp_all

lemma served_labels:
  assumes "served g gh sdk lib app methods m s st"
  shows "http_labels lib methods m \<and> pred_option lfs_labels (sv_metrics s)
    \<and> pred_option s3_labels (st_metrics (fst st)) \<and> finite methods"
  using assms
proof (induction rule: served.induct)
  case (started order env w v random)
  from startup_reachable(2) [OF this] show ?case
    by (auto simp: protocol_server_def dest: store_call_labels)
next
  case (public methods m s st redirect stores i escaped period r m' answer s')
  then show ?case
    using public_parts [OF public.hyps(2,3)] routeMetrics_labels serve_dispatch_labels by (metis finite_insert insertI1)
next
  case (operations methods m s st redirect page i ready escaped period r m' answer)
  then show ?case
    using admin_parts [OF operations.hyps(2,3)] routeMetrics_labels by (metis finite_insert insertI1 insertI2)
next
  case (storing methods m s st st')
  then show ?case using store_call_labels by blast
qed simp_all

lemma served_github_labels:
  assumes "served g gh sdk lib app methods m s st"
  shows "pred_option gh_labels (gh_metrics (fst (sv_world s)))"
proof (rule labels.reachable_keeps [OF served_authorizer [OF assms]])
  fix a
  assume "github_New g gh (github_config (ap_config app)) = Inr a"
  from New_settings(5) [OF this] show "pred_option gh_labels (gh_metrics a)" by (simp add: github_config_def)
qed

text \<open>The label lists of a process's vectors, by the names the vectors are registered under.\<close>

definition golfs_series ::
    "Metrics \<Rightarrow> 'w gh_state server \<Rightarrow> Store \<times> 'v \<Rightarrow> (string \<times> string list set) list" where
  "golfs_series m s st =
     (let part = \<lambda>f mo. (case mo of None \<Rightarrow> [] | Some x \<Rightarrow> f x) in
      [(''golfs_http_requests_total'', counted (HTTPRequests m)),
       (''golfs_http_request_duration_seconds'', observed (HTTPDuration m))]
      @ part (\<lambda>x. [(''golfs_auth_cache_requests_total'', counted (AuthCache x)),
          (''golfs_batch_objects_total'', counted (BatchObjects x)),
          (''golfs_verify_results_total'', counted (VerifyResults x))]) (sv_metrics s)
      @ part (\<lambda>x. [(''golfs_github_requests_total'', counted (GitHubRequests x)),
          (''golfs_github_request_duration_seconds'', observed (GitHubDuration x))]) (gh_metrics (fst (sv_world s)))
      @ part (\<lambda>x. [(''golfs_s3_requests_total'', counted (S3Requests x)),
          (''golfs_s3_request_duration_seconds'', observed (S3Duration x))]) (st_metrics (fst st)))"

text \<open>
  C29. Whatever requests a started process serves, every vector is counted with just as many values
  as it declares labels, so counting never panics, and the values come from the fixed words of
  the code, statuses, and the methods of the requests: no owner, repository, object or token
  becomes a label.
\<close>

theorem labels_stay_in_vocabulary:
  assumes "served g gh sdk lib app methods m s st"
  shows "http_labels lib methods m \<and> pred_option lfs_labels (sv_metrics s)
    \<and> pred_option gh_labels (gh_metrics (fst (sv_world s))) \<and> pred_option s3_labels (st_metrics (fst st))
    \<and> (\<forall>(name, series) \<in> set (golfs_series m s st). \<forall>ls \<in> series. length ls = declared name)"
proof -
  have ok: "http_labels lib methods m" "pred_option lfs_labels (sv_metrics s)"
    "pred_option gh_labels (gh_metrics (fst (sv_world s)))" "pred_option s3_labels (st_metrics (fst st))"
    using served_labels [OF assms] served_github_labels [OF assms] by simp_all
  have len: "ls \<in> S \<Longrightarrow> length ls = n" if "S \<subseteq> label_lists Xs" "length Xs = n" for S Xs and ls :: "string list" and n
    using that label_lists_length by blast
  have "\<forall>ls \<in> counted (HTTPRequests m). length ls = 4" "\<forall>ls \<in> observed (HTTPDuration m). length ls = 3"
    using ok(1) by (auto simp: http_labels_def Let_def dest: len)
  moreover have "\<forall>ls \<in> counted (AuthCache x). length ls = 1" "\<forall>ls \<in> counted (VerifyResults x). length ls = 1"
    "\<forall>ls \<in> counted (BatchObjects x). length ls = 2" if "sv_metrics s = Some x" for x
    using ok(2) that by (auto simp: lfs_labels_def dest: len)
  moreover have "\<forall>ls \<in> counted (GitHubRequests x). length ls = 2" "\<forall>ls \<in> observed (GitHubDuration x). length ls = 1"
    if "gh_metrics (fst (sv_world s)) = Some x" for x
    using ok(3) that by (auto simp: gh_labels_def dest: len)
  moreover have "\<forall>ls \<in> counted (S3Requests x). length ls = 2" "\<forall>ls \<in> observed (S3Duration x). length ls = 1"
    if "st_metrics (fst st) = Some x" for x
    using ok(4) that by (auto simp: s3_labels_def dest: len)
  ultimately have "\<forall>(name, series) \<in> set (golfs_series m s st). \<forall>ls \<in> series. length ls = declared name"
    by (cases "sv_metrics s"; cases "gh_metrics (fst (sv_world s))"; cases "st_metrics (fst st)")
      (simp_all add: golfs_series_def declared_simps Let_def)
  with ok show ?thesis by simp
qed

text \<open>A process that has answered one request, for the witnesses.\<close>

lemma served0: "\<exists>app m s. served lib0 outside1 sdk0 {} app {req_Method (r :: http_request)} m s (ap_s3 app)"
proof -
  obtain app where app: "startup lib0 (\<lambda>xs. xs) env0 outside1 0 sdk0 () (Some ''s'') = Inr app"
    using startup0 by (auto simp: is_ok_def split: sum.splits)
  obtain m answer s where "publicHandler lib0 [] (golfs_env lib0 outside1 sdk0 (\<lambda>_. (store0, ()))) (ap_handler app)
      ''id'' ''/'' (0, 5) r metrics_New (protocol_server app) = ((m, answer), s)" by (metis prod.exhaust)
  from served.public [OF served.started [OF app] this, of "{}"] show ?thesis by auto
qed

lemma labels_stay_in_vocabulary_witness:
  "\<exists>app m s. served lib0 outside1 sdk0 {} app {''POST''} m s (ap_s3 app) \<and> http_labels {} {''POST''} m"
proof -
  obtain app m s where run: "served lib0 outside1 sdk0 {} app {''POST''} m s (ap_s3 app)"
    using served0 [of request0] by (auto simp: request0_def)
  from labels_stay_in_vocabulary [OF run] run show ?thesis by blast
qed

lemma served_methods_counted:
  assumes "served g gh sdk lib app methods m s st"
  shows "methods \<subseteq> (\<lambda>ls. ls ! 2) ` counted (HTTPRequests m)"
  using assms
proof (induction rule: served.induct)
  case (public methods m s st redirect stores i escaped period r m' answer s')
  have "\<exists>code. HTTPRequests m' = inc [''public'', route_label (req_Path r), req_Method r, code] (HTTPRequests m)"
    using public.hyps(2) by (auto simp: publicHandler_def routeMetrics_def Instrument_def Let_def split_def)
  then show ?case using public.IH by auto
next
  case (operations methods m s st redirect page i ready escaped period r m' answer)
  have "\<exists>code. HTTPRequests m' = inc [''operations'', route_label (req_Path r), req_Method r, code] (HTTPRequests m)"
    using operations.hyps(2) by (auto simp: adminHandler_def routeMetrics_def Instrument_def Let_def split_def)
  then show ?case using operations.IH by auto
qed simp_all

text \<open>
  C31. The series of the HTTP counter grow with the methods clients send, and with nothing else:
  there are at least as many as methods, at most 12 times the number of statuses for each. But a
  client is free in its method, since net/http lets any token through: any further one can be
  added, by a single request that needs no credentials, so the method label has no bound.
\<close>

theorem http_series_follow_methods:
  assumes "served g gh sdk lib app methods m s st" and "finite lib"
  shows "card methods \<le> card (counted (HTTPRequests m))
    \<and> card (counted (HTTPRequests m)) \<le> 12 * (12 + card lib) * card methods
    \<and> (\<forall>r :: http_request. \<exists>m' s'. served g gh sdk lib app (insert (req_Method r) methods) m' s' st)"
proof -
  let ?codes = "format_int ` (own_codes \<union> lib)"
  let ?words = "[{''public'', ''operations''}, routes, methods, ?codes]"
  have labels: "http_labels lib methods m" "finite methods" using served_labels [OF assms(1)] by blast+
  have fin: "\<forall>X\<in>set ?words. finite X" using labels(2) assms(2) by (simp add: routes_def own_codes_def)
  have sub: "counted (HTTPRequests m) \<subseteq> label_lists ?words" using labels(1) by (simp add: http_labels_def Let_def)
  have codes: "card ?codes \<le> 12 + card lib"
    using card_image_le [of "own_codes \<union> lib" format_int] card_Un_le [of own_codes lib] assms(2)
    by (simp add: own_codes_def)
  have "card (counted (HTTPRequests m)) \<le> card (label_lists ?words)"
    using sub label_lists_finite [OF fin] by (blast intro: card_mono)
  also have "\<dots> = 12 * card methods * card ?codes" using label_lists_finite [OF fin] by (simp add: routes_def)
  also have "\<dots> \<le> 12 * (12 + card lib) * card methods" using mult_le_mono2 [OF codes, of "12 * card methods"] by (simp add: algebra_simps)
  finally have upper: "card (counted (HTTPRequests m)) \<le> 12 * (12 + card lib) * card methods" .
  have lower: "card methods \<le> card (counted (HTTPRequests m))"
    using served_methods_counted [OF assms(1)] sub label_lists_finite [OF fin]
    by (blast intro: surj_card_le finite_subset)
  have "\<exists>m' s'. served g gh sdk lib app (insert (req_Method r) methods) m' s' st" for r :: http_request
  proof -
    obtain m' answer s' where "publicHandler g [] (golfs_env g gh sdk undefined) (ap_handler app) [] ''/'' (0, 0) r m s
        = ((m', answer), s')" by (metis prod.exhaust)
    from served.public [OF assms(1) this] show ?thesis by auto
  qed
  with upper lower show ?thesis by blast
qed

lemma http_series_follow_methods_witness:
  "\<exists>app m s. served lib0 outside1 sdk0 {} app {''POST''} m s (ap_s3 app)
     \<and> 1 \<le> card (counted (HTTPRequests m)) \<and> card (counted (HTTPRequests m)) \<le> 144"
proof -
  obtain app m s where run: "served lib0 outside1 sdk0 {} app {''POST''} m s (ap_s3 app)"
    using served0 [of request0] by (auto simp: request0_def)
  from http_series_follow_methods [OF run] run show ?thesis by auto
qed

subsection \<open>Counters and durations agree\<close>

text \<open>
  A counter whose last label is a status and a histogram without it agree when every duration
  observed has been counted, under one status or another, and nothing else has.
\<close>

definition paired :: "counter_vec \<Rightarrow> histogram_vec \<Rightarrow> bool" where
  "paired c h = (finite (counted c) \<and> (\<forall>ls. length (h ls) = (\<Sum>x \<in> {x \<in> counted c. butlast x = ls}. c x)))"

lemma paired_New [simp]: "paired (\<lambda>_. 0) (\<lambda>_. [])"
  by (simp add: paired_def)

lemma paired_step [intro]:
  assumes "paired c h"
  shows "paired (inc (ls @ [status]) c) (observe ls d h)"
proof -
  let ?y = "ls @ [status]"
  let ?X = "\<lambda>ls'. {x \<in> counted c. butlast x = ls'}"
  have fin: "finite (?X ls')" for ls' using assms by (simp add: paired_def)
  have h: "length (h ls') = sum c (?X ls')" for ls' using assms by (simp add: paired_def)
  have other: "{x \<in> insert ?y (counted c). butlast x = ls'} = ?X ls'" if "ls' \<noteq> ls" for ls' using that by auto
  have same: "{x \<in> insert ?y (counted c). butlast x = ls} = insert ?y (?X ls)" by auto
  have grow: "sum c (insert ?y (?X ls)) = sum c (?X ls)"
    using fin by (cases "?y \<in> ?X ls") (auto simp: insert_absorb counted_def)
  have "sum (inc ?y c) (insert ?y (?X ls)) = Suc (c ?y) + sum (inc ?y c) (?X ls - {?y})"
    using fin by (simp add: sum.insert_remove inc_apply)
  also have "sum (inc ?y c) (?X ls - {?y}) = sum c (?X ls - {?y})" by (rule sum.cong) (auto simp: inc_apply)
  also have "Suc (c ?y) + \<dots> = Suc (sum c (insert ?y (?X ls)))" using fin by (simp add: sum.insert_remove)
  finally have own: "sum (inc ?y c) (insert ?y (?X ls)) = Suc (length (h ls))" by (simp add: grow h)
  have rest: "sum (inc ?y c) (?X ls') = length (h ls')" if "ls' \<noteq> ls" for ls'
    unfolding h using that by (intro sum.cong) (auto simp: inc_apply)
  have "length (observe ls d h ls') = sum (inc ?y c) {x \<in> counted (inc ?y c). butlast x = ls'}" for ls'
  proof (cases "ls' = ls")
    case True
    show ?thesis unfolding counted_inc True same own by (simp add: observe_apply)
  next
    case False
    then show ?thesis unfolding counted_inc other [OF False] rest [OF False] by (simp add: observe_apply)
  qed
  moreover have "finite (counted (inc ?y c))" using assms by (simp add: paired_def)
  ultimately show ?thesis unfolding paired_def by blast
qed

lemma paired_pair [intro]: "paired c h \<Longrightarrow> paired (inc [operation, status] c) (observe [operation] d h)"
  using paired_step [of c h "[operation]"] by simp

lemma routeMetrics_paired:
  "paired (HTTPRequests m) (HTTPDuration m) \<Longrightarrow>
     paired (HTTPRequests (fst (routeMetrics listener r period ops (m, w)))) (HTTPDuration (fst (routeMetrics listener r period ops (m, w))))"
  using paired_step [of "HTTPRequests m" "HTTPDuration m" "[listener, route_label (req_Path r), req_Method r]"]
  by (simp add: routeMetrics_def Instrument_def Let_def split_def)

interpretation durations:
  authorizer_invariant env "\<lambda>a. pred_option (\<lambda>m. paired (GitHubRequests m) (GitHubDuration m)) (gh_metrics a)" for env
proof
  fix operation status started w a' w' and a :: Authorizer
  show "operation \<in> gh_operations \<Longrightarrow> status \<in> request_statuses \<Longrightarrow>
      pred_option (\<lambda>m. paired (GitHubRequests m) (GitHubDuration m)) (gh_metrics a) \<Longrightarrow>
      gh_observe env operation status started (a, w) = (a', w') \<Longrightarrow>
      pred_option (\<lambda>m. paired (GitHubRequests m) (GitHubDuration m)) (gh_metrics a')"
    by (cases "gh_metrics a") (auto simp: gh_observe_def split: prod.splits)
  show "pred_option (\<lambda>m. paired (GitHubRequests m) (GitHubDuration m)) (gh_metrics a) \<Longrightarrow>
      signedAppJWT env (a, w) = (r, (a', w')) \<Longrightarrow>
      pred_option (\<lambda>m. paired (GitHubRequests m) (GitHubDuration m)) (gh_metrics a')" for r
    by (auto simp: signedAppJWT_def Let_def split: prod.splits if_splits option.splits)
qed

lemma store_call_paired:
  assumes "store_call g sdk s t" and "pred_option (\<lambda>m. paired (S3Requests m) (S3Duration m)) (st_metrics (fst s))"
  shows "pred_option (\<lambda>m. paired (S3Requests m) (S3Duration m)) (st_metrics (fst t))"
  using store_call_counts [OF assms(1)] assms(2)
  by (cases "st_metrics (fst s)") (auto simp: s3_observe_def)

lemma served_paired:
  assumes "served g gh sdk lib app methods m s st"
  shows "paired (HTTPRequests m) (HTTPDuration m)
    \<and> pred_option (\<lambda>m. paired (S3Requests m) (S3Duration m)) (st_metrics (fst st))"
  using assms
proof (induction rule: served.induct)
  case (started order env w v random)
  from startup_reachable(2) [OF this] show ?case by (auto simp: metrics_New_def dest: store_call_paired)
next
  case (public methods m s st redirect stores i escaped period r m' answer s')
  obtain ops where "m' = fst (routeMetrics ''public'' r period ops (m, empty_response))"
    using public_parts [OF public.hyps(2,3)] by blast
  then show ?case using public.IH routeMetrics_paired by simp
next
  case (operations methods m s st redirect page i ready escaped period r m' answer)
  obtain ops where "m' = fst (routeMetrics ''operations'' r period ops (m, empty_response))"
    using admin_parts [OF operations.hyps(2,3)] by blast
  then show ?case using operations.IH routeMetrics_paired by simp
next
  case (storing methods m s st st')
  then show ?case using store_call_paired by blast
qed simp_all

text \<open>
  C30. The numbers of the metrics page are consistent: for every route, GitHub operation and
  store operation, as many durations have been observed as requests were counted over all
  statuses, failures of the network and refused requests included.
\<close>

theorem durations_agree_with_counts:
  assumes "served g gh sdk lib app methods m s st"
  shows "length (HTTPDuration m ls) = (\<Sum>x \<in> {x \<in> counted (HTTPRequests m). butlast x = ls}. HTTPRequests m x)
    \<and> (\<forall>x. gh_metrics (fst (sv_world s)) = Some x \<longrightarrow>
        length (GitHubDuration x ls) = (\<Sum>y \<in> {y \<in> counted (GitHubRequests x). butlast y = ls}. GitHubRequests x y))
    \<and> (\<forall>x. st_metrics (fst st) = Some x \<longrightarrow>
        length (S3Duration x ls) = (\<Sum>y \<in> {y \<in> counted (S3Requests x). butlast y = ls}. S3Requests x y))"
proof -
  have "pred_option (\<lambda>m. paired (GitHubRequests m) (GitHubDuration m)) (gh_metrics (fst (sv_world s)))"
  proof (rule durations.reachable_keeps [OF served_authorizer [OF assms]])
    fix a
    assume "github_New g gh (github_config (ap_config app)) = Inr a"
    from New_settings(5) [OF this]
    show "pred_option (\<lambda>m. paired (GitHubRequests m) (GitHubDuration m)) (gh_metrics a)"
      by (simp add: github_config_def metrics_New_def)
  qed
  then show ?thesis using served_paired [OF assms] by (auto simp: paired_def)
qed

lemma durations_agree_with_counts_witness:
  "\<exists>app m s. served lib0 outside1 sdk0 {} app {''POST''} m s (ap_s3 app)
     \<and> length (HTTPDuration m [''public'', ''batch'', ''POST''])
       = (\<Sum>x \<in> {x \<in> counted (HTTPRequests m). butlast x = [''public'', ''batch'', ''POST'']}. HTTPRequests m x)"
proof -
  obtain app m s where run: "served lib0 outside1 sdk0 {} app {''POST''} m s (ap_s3 app)"
    using served0 [of request0] by (auto simp: request0_def)
  from durations_agree_with_counts [OF run] run show ?thesis by blast
qed

end
