(* ===== verification/Github_Links.thy ===== *)
theory Github_Links
  imports Github
begin

section \<open>Package github: where the user's token goes\<close>

text \<open>
  The loop over the pages of installations sends the user's token with every page request. This
  theory says to which URLs: the first page is the fixed one below the API's base URL, every
  later one is whatever the Link header of the page before names.
\<close>

definition next_link :: "exchange \<Rightarrow> string" where
  "next_link x = (case snd x of None \<Rightarrow> [] | Some response \<Rightarrow> parseNext (api_Header response ''Link''))"

definition page_sent :: "golib \<Rightarrow> Authorizer \<Rightarrow> string \<Rightarrow> string \<Rightarrow> exchange list \<Rightarrow> nat \<Rightarrow> bool" where
  "page_sent g a token first xs i =
     (fst (xs ! i) = sent_to g a (if i = 0 then first else next_link (xs ! (i - 1))) token)"

lemma page_answer_link:
  assumes "requestWithNext g (recording env) target operation (userAuthorization token) dec zero (a, (w, l))
      = (Inr (v, n), (a', (w', l @ [x])))"
  shows "n = next_link x"
  using assms
  by (auto simp: requestWithNext_def userAuthorization_def next_link_def Let_def
      split: option.splits if_splits prod.splits dest!: recorded_observe)

lemma page_sent_Cons:
  assumes "fst x = sent_to g a first token" and "\<And>i. i < length xs \<Longrightarrow> page_sent g a token (next_link x) xs i"
    and "i < Suc (length xs)"
  shows "page_sent g a token first (x # xs) i"
proof (cases i)
  case (Suc j)
  then have "page_sent g a token (next_link x) xs j" using assms(2,3) by simp
  then show ?thesis using Suc by (cases j) (simp_all add: page_sent_def)
qed (use assms(1) in \<open>simp add: page_sent_def\<close>)

lemma page_sent_same: "same_config a b \<Longrightarrow> page_sent g b token first xs i = page_sent g a token first xs i"
  using same_config_uses(1) [of a b g] by (simp add: page_sent_def sent_to_def)

lemma installation_pages_sent:
  assumes "installation_pages g (recording env) token wanted pages first (a, (w, l)) = (r, (a', (w', l')))"
  shows "\<exists>xs. l' = l @ xs \<and> (\<forall>i < length xs. page_sent g a token first xs i)"
  using assms
proof (induction pages arbitrary: first a w l)
  case (Suc pages)
  obtain q b w1 l1 where q: "requestWithNext g (recording env) first ''user_installations''
      (userAuthorization token) decode_installations [] (a, (w, l)) = (q, (b, (w1, l1)))"
    by (metis prod.exhaust)
  obtain xs where b: "same_config a b" "l1 = l @ xs" "length xs \<le> 1" "\<forall>x\<in>set xs. fst x = sent_to g a first token"
    "\<forall>v n. q = Inr (v, n) \<longrightarrow> (\<exists>x. xs = [x] \<and> replies decode_installations [] x v)"
    using user_requestWithNext [OF q] by blast
  show ?case
  proof (cases "\<exists>ids next. q = Inr (ids, next) \<and> wanted \<notin> set ids \<and> next \<noteq> []")
    case True
    then obtain ids "next" x where step: "q = Inr (ids, next)" "wanted \<notin> set ids" "next \<noteq> []" "xs = [x]"
      using b(5) by blast
    have link: "next = next_link x" by (rule page_answer_link [OF q [unfolded step(1,4) b(2)]])
    have "installation_pages g (recording env) token wanted pages next (b, (w1, l1)) = (r, (a', (w', l')))"
      using Suc.prems q step by simp
    from Suc.IH [OF this] obtain ys where ys: "l' = l1 @ ys" "\<forall>i < length ys. page_sent g b token next ys i"
      by blast
    then have "\<forall>i < length (x # ys). page_sent g a token first (x # ys) i"
      using b(4) step(4) page_sent_Cons [of x g a first token ys] page_sent_same [OF b(1)] link by simp
    then show ?thesis using ys b(2) step(4) by (intro exI [of _ "x # ys"]) simp
  next
    case False
    then have "l' = l1" using Suc.prems q by (auto split: sum.splits if_splits)
    then show ?thesis using b(2-4) by (intro exI [of _ xs]) (auto simp: page_sent_def le_Suc_eq length_Suc_conv)
  qed
qed auto

text \<open>
  C14. The user's token follows the links of the answers verbatim: page after page, the next
  request goes to the URL the page before named, with the token, and when that URL is absolute
  it is used as it stands, on another host or without TLS too.
\<close>

theorem page_links_followed_verbatim:
  assumes "userCanAccessInstallation g (recording env) token wanted (a, (w, [])) = (r, (a', (w', log)))"
    and "i < length log"
  shows "api_Authorization (fst (log ! i)) = ''Bearer '' @ token
    \<and> api_URL (fst (log ! i))
      = (if i = 0 then url_string (baseURL a) @ ''/user/installations?per_page=100''
         else if has_prefix (next_link (log ! (i - 1))) ''http://'' \<or> has_prefix (next_link (log ! (i - 1))) ''https://''
         then next_link (log ! (i - 1))
         else url_string (baseURL a) @ next_link (log ! (i - 1)))"
proof -
  have "page_sent g a token ''/user/installations?per_page=100'' log i"
    using installation_pages_sent [OF assms(1) [unfolded userCanAccessInstallation_def]] assms(2) by auto
  moreover have "\<not> has_prefix ''/user/installations?per_page=100'' ''http://''"
    "\<not> has_prefix ''/user/installations?per_page=100'' ''https://''" by code_simp+
  ultimately show ?thesis by (auto simp: page_sent_def sent_to_def endpoint_of_def)
qed

text \<open>A page that links to a host without TLS, which then receives the token.\<close>

definition plain_link0 :: "time outside" where
  "plain_link0 = outside0\<lparr>client_Do := (\<lambda>q t. (Some \<lparr>StatusCode = 200,
     api_Header = (\<lambda>h. if h = ''Link'' \<and> api_URL q \<noteq> ''http://elsewhere/'' then ''<http://elsewhere/>; rel=\"next\"'' else []),
     api_Body = text_stream (json_text (JObj [(''installations'', JArr [])]))\<rparr>, t))\<rparr>"

lemma plain_link0_log:
  "map next_link (snd (snd (snd (userCanAccessInstallation lib0 (recording plain_link0) ''ghu_x'' 7 (github0, (0, []))))))
    = [''http://elsewhere/'', []]"
  by code_simp

lemma page_links_followed_verbatim_witness:
  "\<exists>log. snd (snd (snd (userCanAccessInstallation lib0 (recording plain_link0) ''ghu_x'' 7 (github0, (0, []))))) = log
     \<and> api_URL (fst (log ! 1)) = ''http://elsewhere/'' \<and> api_Authorization (fst (log ! 1)) = ''Bearer ghu_x''"
proof -
  obtain r a' w' log where run: "userCanAccessInstallation lib0 (recording plain_link0) ''ghu_x'' 7 (github0, (0, []))
      = (r, (a', (w', log)))" by (metis prod.exhaust)
  have links: "map next_link log = [''http://elsewhere/'', []]" using plain_link0_log run by simp
  then have "length log = 2" "next_link (log ! 0) = ''http://elsewhere/''" by auto
  moreover have "has_prefix ''http://elsewhere/'' ''http://''" by code_simp
  ultimately show ?thesis using page_links_followed_verbatim [OF run, of 1] run by simp
qed

end
