(* ===== verification/LFS_Concurrent.thy ===== *)
theory LFS_Concurrent
  imports LFS_Handler
begin

section \<open>Package lfs: requests in flight at the same time\<close>

text \<open>
  net/http runs every request in a goroutine of its own, and all of them share the
  authorization cache and the counters. A flight is one request between its arrival and its
  answer; its steps are the points where \<^verbatim>\<open>authorize\<close> of \<^verbatim>\<open>internal/lfs/handler.go\<close> touches what
  is shared: the lookup under the cache's mutex, the call of the authorizer, the insertion
  under the mutex. Everything else of a handler works on the request alone. The step relation
  lets the flights interleave freely, and a run of one flight alone is the handler itself.

  A call of the authorizer is one step, in the world as it is then; between two steps the
  world and the counters may change in any way. The history lists what the authorizer gave,
  what was stored and what was found, latest first.
\<close>

subsection \<open>The parts of a handler\<close>

datatype endpoint = BatchEndpoint | VerifyEndpoint
datatype job = BatchJob batchRequest | VerifyJob requestObject

text \<open>What comes before \<^verbatim>\<open>authorize\<close>: an answer, or the decoded request and the token.\<close>

definition batch_front :: "golib \<Rightarrow> Handler \<Rightarrow> string \<Rightarrow> http_request \<Rightarrow> ops + job \<times> string" where
  "batch_front g h requestID r =
     (if \<not> acceptsLFSJSON g r then Inl (writeError requestID 406 ''response media type is not acceptable'')
      else case readJSON g decode_batchRequest batchRequest_zero r of
        Inl e \<Rightarrow> Inl (writeError requestID (decode_status e) (err_text (lib_error_text g) e))
      | Inr input \<Rightarrow>
          (case validateBatch g h input of
             Some e \<Rightarrow> Inl (writeError requestID 422 (err_text (lib_error_text g) e))
           | None \<Rightarrow>
               (case basicToken r of
                  None \<Rightarrow> Inl (writeAuthenticationError requestID ''Basic credentials are required'')
                | Some (token, _) \<Rightarrow> Inr (BatchJob input, token))))"

definition verify_front :: "golib \<Rightarrow> Handler \<Rightarrow> string \<Rightarrow> http_request \<Rightarrow> ops + job \<times> string" where
  "verify_front g h requestID r =
     (if \<not> acceptsLFSJSON g r then Inl (writeError requestID 406 ''response media type is not acceptable'')
      else case readJSON g decode_requestObject requestObject_zero r of
        Inl e \<Rightarrow> Inl (writeError requestID (decode_status e) (err_text (lib_error_text g) e))
      | Inr input \<Rightarrow>
          (case validateObject g h input of
             Some e \<Rightarrow> Inl (writeError requestID 422 (err_text (lib_error_text g) e))
           | None \<Rightarrow>
               (case basicToken r of
                  None \<Rightarrow> Inl (writeAuthenticationError requestID ''Basic credentials are required'')
                | Some (token, _) \<Rightarrow> Inr (VerifyJob input, token))))"

definition front :: "endpoint \<Rightarrow> golib \<Rightarrow> Handler \<Rightarrow> string \<Rightarrow> http_request \<Rightarrow> ops + job \<times> string" where
  "front e = (case e of BatchEndpoint \<Rightarrow> batch_front | VerifyEndpoint \<Rightarrow> verify_front)"

text \<open>What comes after it, with the permission at hand.\<close>

definition batch_rest ::
    "Handler \<Rightarrow> (nat \<Rightarrow> ObjectStore) \<Rightarrow> string \<Rightarrow> http_request \<Rightarrow> batchRequest \<Rightarrow> Authorization
     \<Rightarrow> Metrics option \<Rightarrow> ops \<times> Metrics option" where
  "batch_rest h views requestID r input auth m =
     (if br_Operation input = ''download'' \<and> Permission auth < PermissionRead then
        (writeError requestID 404 ''repository not found'', m)
      else if br_Operation input = ''upload'' \<and> Permission auth < PermissionWrite then
        (writeError requestID 403 ''repository is read-only'', m)
      else
        (let (objects, m') = processObjects h views (br_Operation input) (RepositoryID auth) (req_owner r)
               (req_repository r) (req_Header r ''Authorization'') (br_Objects input) m
         in (writeJSON 200 (BatchPayload \<lparr>bs_Transfer = ''basic'', bs_HashAlgo = ''sha256'',
               bs_Objects = objects\<rparr>), m')))"

definition count_verify :: "string \<Rightarrow> Metrics option \<Rightarrow> Metrics option" where
  "count_verify label = map_option (\<lambda>m. m\<lparr>VerifyResults := inc [label] (VerifyResults m)\<rparr>)"

definition verify_rest ::
    "(nat \<Rightarrow> ObjectStore) \<Rightarrow> string \<Rightarrow> requestObject \<Rightarrow> Authorization \<Rightarrow> Metrics option \<Rightarrow> ops \<times> Metrics option" where
  "verify_rest views requestID input auth m =
     (if Permission auth < PermissionWrite then (writeError requestID 403 ''repository is read-only'', m)
      else case store_Head (views 0) (RepositoryID auth) (ro_OID input) of
        Inl e \<Rightarrow>
          if errors_is e ErrStorageNotFound then
            (writeError requestID 404 ''object not found'', count_verify ''not_found'' m)
          else (writeError requestID 503 storage_down, count_verify ''unavailable'' m)
      | Inr stored \<Rightarrow>
          if \<not> matches stored input then
            (writeError requestID 422 ''uploaded object size does not match requested size'',
             count_verify ''mismatch'' m)
          else (writeJSON 200 (VerifyPayload (ro_OID input)), count_verify ''success'' m))"

definition job_rest ::
    "Handler \<Rightarrow> (nat \<Rightarrow> ObjectStore) \<Rightarrow> string \<Rightarrow> http_request \<Rightarrow> job \<Rightarrow> Authorization \<Rightarrow> Metrics option
     \<Rightarrow> ops \<times> Metrics option" where
  "job_rest h views requestID r j auth m =
     (case j of
        BatchJob input \<Rightarrow> batch_rest h views requestID r input auth m
      | VerifyJob input \<Rightarrow> verify_rest views requestID input auth m)"

definition finish_job ::
    "'w lfs_env \<Rightarrow> Handler \<Rightarrow> string \<Rightarrow> http_request \<Rightarrow> job \<Rightarrow> Authorization \<Rightarrow> 'w server \<Rightarrow> ops \<times> 'w server" where
  "finish_job env h requestID r j auth s =
     (let (ops, m) = job_rest h (env_views env (sv_world s)) requestID r j auth (sv_metrics s)
      in (ops, s\<lparr>sv_metrics := m\<rparr>))"

definition serve_endpoint ::
    "endpoint \<Rightarrow> golib \<Rightarrow> 'w lfs_env \<Rightarrow> Handler \<Rightarrow> string \<Rightarrow> http_request \<Rightarrow> 'w server \<Rightarrow> ops \<times> 'w server" where
  "serve_endpoint e = (case e of BatchEndpoint \<Rightarrow> batch | VerifyEndpoint \<Rightarrow> verify)"

definition after_authorize ::
    "'w lfs_env \<Rightarrow> Handler \<Rightarrow> string \<Rightarrow> http_request \<Rightarrow> job \<Rightarrow> (err, Authorization) result \<times> 'w server \<Rightarrow> ops \<times> 'w server" where
  "after_authorize env h requestID r j ps =
     (case ps of
        (Inl e, s) \<Rightarrow> (writeForgeError requestID e, s)
      | (Inr auth, s) \<Rightarrow> finish_job env h requestID r j auth s)"

lemma batch_parts:
  "batch g env h i r s =
     (case batch_front g h i r of
        Inl ops \<Rightarrow> (ops, s)
      | Inr (j, token) \<Rightarrow> after_authorize env h i r j (lfs_authorize g env (req_owner r) (req_repository r) token s))"
  by (auto simp: batch_def batch_front_def after_authorize_def finish_job_def job_rest_def batch_rest_def Let_def
      dest!: basicToken_header split: sum.split option.split prod.split)

lemma verify_parts:
  "verify g env h i r s =
     (case verify_front g h i r of
        Inl ops \<Rightarrow> (ops, s)
      | Inr (j, token) \<Rightarrow> after_authorize env h i r j (lfs_authorize g env (req_owner r) (req_repository r) token s))"
  by (auto simp: verify_def verify_front_def after_authorize_def finish_job_def job_rest_def verify_rest_def
      observeVerify_def count_verify_def Let_def split: sum.split option.split prod.split)

lemma endpoint_parts:
  "serve_endpoint e g env h i r s =
     (case front e g h i r of
        Inl ops \<Rightarrow> (ops, s)
      | Inr (j, token) \<Rightarrow> after_authorize env h i r j (lfs_authorize g env (req_owner r) (req_repository r) token s))"
  by (cases e) (simp_all add: serve_endpoint_def front_def batch_parts verify_parts)

subsection \<open>Flights\<close>

datatype flight =
    Looking job string
  | Asking job string
  | Storing job string Authorization
  | Cleared job string Authorization
  | Answered ops

datatype happening =
    Gave cache_triple Authorization
  | Stored time cache_triple Authorization
  | Found time cache_triple Authorization

record 'w traffic =
  tr_server :: "'w server"
  tr_flights :: "nat \<rightharpoonup> http_request \<times> string \<times> flight"
  tr_history :: "happening list"

definition put_flight ::
    "nat \<Rightarrow> http_request \<Rightarrow> string \<Rightarrow> flight \<Rightarrow> 'w server \<Rightarrow> happening list \<Rightarrow> 'w traffic \<Rightarrow> 'w traffic" where
  "put_flight n r i f s new t = t\<lparr>tr_server := s, tr_flights := (tr_flights t)(n \<mapsto> (r, i, f)),
     tr_history := new @ tr_history t\<rparr>"

lemma put_flight_simps [simp]:
  "tr_server (put_flight n r i f s new t) = s"
  "tr_flights (put_flight n r i f s new t) = (tr_flights t)(n \<mapsto> (r, i, f))"
  "tr_history (put_flight n r i f s new t) = new @ tr_history t"
  by (simp_all add: put_flight_def)

text \<open>A step is labelled with the flight that makes it, if one does.\<close>

inductive traffic_step ::
    "golib \<Rightarrow> 'w lfs_env \<Rightarrow> Handler \<Rightarrow> 'w traffic \<Rightarrow> nat option \<Rightarrow> 'w traffic \<Rightarrow> bool"
  for g env h where
  reject: "tr_flights t n = None \<Longrightarrow> front e g h i r = Inl ops \<Longrightarrow>
     traffic_step g env h t (Some n) (put_flight n r i (Answered ops) (tr_server t) [] t)"
| arrive: "tr_flights t n = None \<Longrightarrow> front e g h i r = Inr (j, token) \<Longrightarrow>
     traffic_step g env h t (Some n) (put_flight n r i (Looking j token) (tr_server t) [] t)"
| hit: "tr_flights t n = Some (r, i, Looking j token) \<Longrightarrow> s = tr_server t \<Longrightarrow> now = env_now env (sv_world s) \<Longrightarrow>
     cache_Get g (sv_cache s) now token (req_owner r) (req_repository r) = (Some auth, c) \<Longrightarrow>
     traffic_step g env h t (Some n) (put_flight n r i (Cleared j token auth)
       (s\<lparr>sv_cache := c, sv_metrics := observeAuth ''hit'' (sv_metrics s)\<rparr>)
       [Found now (token, req_owner r, req_repository r) auth] t)"
| miss: "tr_flights t n = Some (r, i, Looking j token) \<Longrightarrow> s = tr_server t \<Longrightarrow> now = env_now env (sv_world s) \<Longrightarrow>
     cache_Get g (sv_cache s) now token (req_owner r) (req_repository r) = (None, c) \<Longrightarrow>
     traffic_step g env h t (Some n) (put_flight n r i (Asking j token)
       (s\<lparr>sv_cache := c, sv_metrics := observeAuth ''miss'' (sv_metrics s)\<rparr>) [] t)"
| refused: "tr_flights t n = Some (r, i, Asking j token) \<Longrightarrow> s = tr_server t \<Longrightarrow>
     env_authorize env (req_owner r) (req_repository r) token (sv_world s) = (Inl err, w) \<Longrightarrow>
     traffic_step g env h t (Some n) (put_flight n r i (Answered (writeForgeError i err)) (s\<lparr>sv_world := w\<rparr>) [] t)"
| given: "tr_flights t n = Some (r, i, Asking j token) \<Longrightarrow> s = tr_server t \<Longrightarrow>
     env_authorize env (req_owner r) (req_repository r) token (sv_world s) = (Inr auth, w) \<Longrightarrow>
     traffic_step g env h t (Some n) (put_flight n r i (Storing j token auth) (s\<lparr>sv_world := w\<rparr>)
       [Gave (token, req_owner r, req_repository r) auth] t)"
| store: "tr_flights t n = Some (r, i, Storing j token auth) \<Longrightarrow> s = tr_server t \<Longrightarrow> now = env_now env (sv_world s) \<Longrightarrow>
     traffic_step g env h t (Some n) (put_flight n r i (Cleared j token auth)
       (s\<lparr>sv_cache := cache_Put g (sv_cache s) now token (req_owner r) (req_repository r) auth\<rparr>)
       [Stored now (token, req_owner r, req_repository r) auth] t)"
| answer: "tr_flights t n = Some (r, i, Cleared j token auth) \<Longrightarrow>
     finish_job env h i r j auth (tr_server t) = (ops, s) \<Longrightarrow>
     traffic_step g env h t (Some n) (put_flight n r i (Answered ops) s [] t)"
| meanwhile: "traffic_step g env h t None (t\<lparr>tr_server := (tr_server t)\<lparr>sv_world := w, sv_metrics := m\<rparr>\<rparr>)"

inductive traffic_run ::
    "golib \<Rightarrow> 'w lfs_env \<Rightarrow> Handler \<Rightarrow> 'w traffic \<Rightarrow> nat option list \<Rightarrow> 'w traffic \<Rightarrow> bool"
  for g env h where
  idle: "traffic_run g env h t [] t"
| onward: "traffic_run g env h t ls u \<Longrightarrow> traffic_step g env h u l v \<Longrightarrow> traffic_run g env h t (ls @ [l]) v"

lemma traffic_run_trans:
  assumes "traffic_run g env h t ls u" and "traffic_run g env h u ks v"
  shows "traffic_run g env h t (ls @ ks) v"
  using assms(2,1) by (induction rule: traffic_run.induct) (auto simp flip: append_assoc intro: onward)

definition traffic_start :: "Cache \<Rightarrow> Metrics option \<Rightarrow> 'w \<Rightarrow> 'w traffic" where
  "traffic_start c m w = \<lparr>tr_server = \<lparr>sv_cache = c, sv_metrics = m, sv_world = w\<rparr>,
     tr_flights = Map.empty, tr_history = []\<rparr>"

subsection \<open>What every interleaving keeps\<close>

text \<open>
  An authorization a flight holds for \<open>k\<close> was given to it, or was found for \<open>k\<close> in the cache.
  What was found had been stored less than a lifetime before under the same key, and what was
  stored had been given.
\<close>

definition held :: "happening list \<Rightarrow> cache_triple \<Rightarrow> Authorization \<Rightarrow> bool" where
  "held l k a = (Gave k a \<in> set l \<or> (\<exists>now. Found now k a \<in> set l))"

definition history_sound :: "golib \<Rightarrow> string \<Rightarrow> duration \<Rightarrow> happening list \<Rightarrow> bool" where
  "history_sound g key life l =
     ((\<forall>t0 k a. Stored t0 k a \<in> set l \<longrightarrow> Gave k a \<in> set l)
      \<and> (\<forall>now k a. Found now k a \<in> set l \<longrightarrow>
           (\<exists>t0 k0. Stored t0 k0 a \<in> set l \<and> triple_key g key k0 = triple_key g key k \<and> now < t0 + life)))"

definition stored_in :: "happening list \<Rightarrow> grant set" where
  "stored_in l = {(t0, k, a). Stored t0 k a \<in> set l}"

fun flight_sound ::
    "golib \<Rightarrow> Handler \<Rightarrow> happening list \<Rightarrow> http_request \<Rightarrow> string \<Rightarrow> flight \<Rightarrow> bool" where
  "flight_sound g h l r i (Looking j token) = (\<exists>e. front e g h i r = Inr (j, token))"
| "flight_sound g h l r i (Asking j token) = (\<exists>e. front e g h i r = Inr (j, token))"
| "flight_sound g h l r i (Storing j token a) =
     ((\<exists>e. front e g h i r = Inr (j, token)) \<and> Gave (token, req_owner r, req_repository r) a \<in> set l)"
| "flight_sound g h l r i (Cleared j token a) =
     ((\<exists>e. front e g h i r = Inr (j, token)) \<and> held l (token, req_owner r, req_repository r) a)"
| "flight_sound g h l r i (Answered ops) =
     ((\<exists>e. front e g h i r = Inl ops)
      \<or> (\<exists>e j token. front e g h i r = Inr (j, token)
           \<and> ((\<exists>err. ops = writeForgeError i err)
              \<or> (\<exists>a views m. held l (token, req_owner r, req_repository r) a
                   \<and> ops = fst (job_rest h views i r j a m)))))"

definition traffic_inv :: "golib \<Rightarrow> Handler \<Rightarrow> string \<Rightarrow> duration \<Rightarrow> 'w traffic \<Rightarrow> bool" where
  "traffic_inv g h key life t =
     (stored_rests g key life (sv_cache (tr_server t)) (stored_in (tr_history t))
      \<and> history_sound g key life (tr_history t)
      \<and> (\<forall>n r i f. tr_flights t n = Some (r, i, f) \<longrightarrow> flight_sound g h (tr_history t) r i f))"

lemma held_more: "held l k a \<Longrightarrow> held (new @ l) k a"
  by (auto simp: held_def)

lemma flight_sound_more: "flight_sound g h l r i f \<Longrightarrow> flight_sound g h (new @ l) r i f"
  by (cases f) (auto, (metis held_more)+)

lemma stored_in_Cons [simp]:
  "stored_in (Stored t0 k a # l) = insert (t0, k, a) (stored_in l)"
  "stored_in (Found now k a # l) = stored_in l" "stored_in (Gave k a # l) = stored_in l" "stored_in [] = {}"
  by (auto simp: stored_in_def)

lemma put_flight_inv:
  assumes "traffic_inv g h key life t"
    and "stored_rests g key life (sv_cache s) (stored_in (new @ tr_history t))"
    and "history_sound g key life (new @ tr_history t)" and "flight_sound g h (new @ tr_history t) r i f"
  shows "traffic_inv g h key life (put_flight n r i f s new t)"
  using assms flight_sound_more unfolding traffic_inv_def by (auto simp: stored_in_def split: if_splits)

lemma traffic_start_inv:
  assumes "cache_New cap life (Some key) = Inr c"
  shows "traffic_inv g h key life (traffic_start c m w)"
  using rests_new [OF assms] by (simp add: traffic_inv_def traffic_start_def history_sound_def)

lemma history_sound_gave:
  "history_sound g key life l \<Longrightarrow> history_sound g key life (Gave k a # l)"
  by (auto simp: history_sound_def)

lemma history_sound_stored:
  assumes "history_sound g key life l" and "Gave k a \<in> set l"
  shows "history_sound g key life (Stored t0 k a # l)"
  using assms unfolding history_sound_def by simp blast

lemma history_sound_found:
  assumes "history_sound g key life l" and "Stored t0 k0 a \<in> set l"
    and "triple_key g key k0 = triple_key g key k" and "now < t0 + life"
  shows "history_sound g key life (Found now k a # l)"
  using assms unfolding history_sound_def by (cases k; cases k0) (simp, blast)

lemma traffic_step_inv:
  assumes "traffic_step g env h t who t'" and inv: "traffic_inv g h key life t"
  shows "traffic_inv g h key life t'"
proof -
  note rests = conjunct1 [OF inv [unfolded traffic_inv_def]]
  note sound = conjunct1 [OF conjunct2 [OF inv [unfolded traffic_inv_def]]]
  have flights: "tr_flights t n = Some (r, i, f) \<Longrightarrow> flight_sound g h (tr_history t) r i f" for n r i f
    using inv by (simp add: traffic_inv_def)
  from assms(1) show ?thesis
  proof cases
    case (hit n r i j token s now auth c)
    from rests_get [OF rests hit(6) [unfolded hit(4)]]
    have c: "stored_rests g key life c (stored_in (tr_history t))"
      and found: "\<exists>t0 k0. (t0, k0, auth) \<in> stored_in (tr_history t)
        \<and> triple_key g key k0 = triple_key g key (token, req_owner r, req_repository r) \<and> now < t0 + life" by auto
    then have "history_sound g key life (Found now (token, req_owner r, req_repository r) auth # tr_history t)"
      using history_sound_found [OF sound] unfolding stored_in_def by blast
    then show ?thesis unfolding hit(2) using flights [OF hit(3)] c
      by (intro put_flight_inv [OF inv]) (auto simp: held_def)
  next
    case (miss n r i j token s now c)
    then show ?thesis using flights [OF miss(3)] rests_get [OF rests miss(6) [unfolded miss(4)]] sound
      unfolding miss(2) by (intro put_flight_inv [OF inv]) auto
  next
    case (given n r i j token s auth w)
    then show ?thesis using flights [OF given(3)] rests history_sound_gave [OF sound]
      unfolding given(2) by (intro put_flight_inv [OF inv]) auto
  next
    case (store n r i j token auth s now)
    then show ?thesis
      using flights [OF store(3)] history_sound_stored [OF sound] rests_put [OF rests]
      unfolding store(2) by (intro put_flight_inv [OF inv]) (auto simp: held_def)
  next
    case (answer n r i j token auth ops s)
    have "ops = fst (job_rest h (env_views env (sv_world (tr_server t))) i r j auth (sv_metrics (tr_server t)))"
      "sv_cache s = sv_cache (tr_server t)"
      using answer(4) by (auto simp: finish_job_def split: prod.splits)
    then show ?thesis using flights [OF answer(3)] rests sound
      unfolding answer(2) by (intro put_flight_inv [OF inv]) (auto, blast)
  next
    case (meanwhile w m)
    then show ?thesis using inv by (simp add: traffic_inv_def)
  next
    case (reject n i r ops)
    then show ?thesis using rests sound unfolding reject(2) by (intro put_flight_inv [OF inv]) auto
  next
    case (arrive n i r j token)
    then show ?thesis using rests sound unfolding arrive(2) by (intro put_flight_inv [OF inv]) auto
  next
    case (refused n r i j token s err w)
    have "flight_sound g h (tr_history t) r i (Answered (writeForgeError i err))"
      using flights [OF refused(3)] by (simp, blast)
    then show ?thesis using refused rests sound
      unfolding refused(2) by (intro put_flight_inv [OF inv]) simp_all
  qed
qed

lemma traffic_run_inv:
  "traffic_run g env h t ls t' \<Longrightarrow> traffic_inv g h key life t \<Longrightarrow> traffic_inv g h key life t'"
  by (induction rule: traffic_run.induct) (auto intro: traffic_step_inv)

subsection \<open>Answers rest on grants in every interleaving\<close>

definition job_allowed :: "job \<Rightarrow> Authorization \<Rightarrow> bool" where
  "job_allowed j auth =
     (case j of BatchJob input \<Rightarrow> sufficient input auth | VerifyJob input \<Rightarrow> Permission auth = PermissionWrite)"

lemma front_rejects: "front e g h i r = Inl ops \<Longrightarrow> final_status (run_writes ops empty_response) \<noteq> 200"
  by (auto simp: front_def batch_front_def verify_front_def split: endpoint.splits if_splits sum.splits option.splits)

lemma served_job_allowed:
  assumes "front e g h i r = Inr (j, token)"
    and "final_status (run_writes (fst (job_rest h views i r j auth m)) empty_response) = 200"
  shows "job_allowed j auth"
proof (cases e)
  case BatchEndpoint
  then obtain input where "j = BatchJob input" "validateBatch g h input = None"
    using assms(1) by (auto simp: front_def batch_front_def split: if_splits sum.splits option.splits)
  then show ?thesis using assms(2) validated_operation [of g h input]
    by (auto simp: job_allowed_def job_rest_def batch_rest_def sufficient_def split: if_splits)
next
  case VerifyEndpoint
  then obtain input where "j = VerifyJob input"
    using assms(1) by (auto simp: front_def verify_front_def split: if_splits sum.splits option.splits)
  then show ?thesis using assms(2)
    by (auto simp: job_allowed_def job_rest_def verify_rest_def split: if_splits)
qed


subsection \<open>Every request is answered\<close>

fun steps_left :: "(http_request \<times> string \<times> flight) option \<Rightarrow> nat" where
  "steps_left None = 5"
| "steps_left (Some (r, i, Looking j token)) = 4"
| "steps_left (Some (r, i, Asking j token)) = 3"
| "steps_left (Some (r, i, Storing j token a)) = 2"
| "steps_left (Some (r, i, Cleared j token a)) = 1"
| "steps_left (Some (r, i, Answered ops)) = 0"

lemma own_step: "traffic_step g env h t (Some n) t' \<Longrightarrow> steps_left (tr_flights t' n) < steps_left (tr_flights t n)"
  by (erule traffic_step.cases) auto

lemma other_step: "traffic_step g env h t who t' \<Longrightarrow> who \<noteq> Some n \<Longrightarrow> tr_flights t' n = tr_flights t n"
  by (erule traffic_step.cases) auto

lemma run_steps_left:
  "traffic_run g env h t ls t' \<Longrightarrow>
     count_list ls (Some n) + steps_left (tr_flights t' n) \<le> steps_left (tr_flights t n)"
proof (induction rule: traffic_run.induct)
  case (onward t ls u l v)
  then show ?case using own_step [of g env h u n v] other_step [OF onward(2), of n]
    by (cases "l = Some n") auto
qed simp

lemma run_moves_only_own:
  "traffic_run g env h t ls t' \<Longrightarrow> count_list ls (Some n) = 0 \<Longrightarrow> tr_flights t' n = tr_flights t n"
proof (induction rule: traffic_run.induct)
  case (onward t ls u l v)
  then show ?case using other_step [OF onward(2), of n] by (cases "l = Some n") auto
qed simp

lemma flight_can_step:
  assumes "tr_flights t n = Some (r, i, f)" and "steps_left (tr_flights t n) \<noteq> 0"
  shows "\<exists>t'. traffic_step g env h t (Some n) t'"
proof (cases f)
  case (Looking j token)
  note at = assms(1) [unfolded Looking]
  obtain q c where q: "cache_Get g (sv_cache (tr_server t)) (env_now env (sv_world (tr_server t))) token
      (req_owner r) (req_repository r) = (q, c)" by (metis prod.exhaust)
  show ?thesis
  proof (cases q)
    case None
    from miss [OF at refl refl q [unfolded None]] show ?thesis by (rule exI)
  next
    case (Some auth)
    from hit [OF at refl refl q [unfolded Some]] show ?thesis by (rule exI)
  qed
next
  case (Asking j token)
  note at = assms(1) [unfolded Asking]
  obtain q w where q: "env_authorize env (req_owner r) (req_repository r) token (sv_world (tr_server t)) = (q, w)"
    by (metis prod.exhaust)
  show ?thesis
  proof (cases q)
    case (Inl e)
    from refused [OF at refl q [unfolded Inl]] show ?thesis by (rule exI)
  next
    case (Inr auth)
    from given [OF at refl q [unfolded Inr]] show ?thesis by (rule exI)
  qed
next
  case (Storing j token a)
  from store [OF assms(1) [unfolded Storing] refl refl] show ?thesis by (rule exI)
next
  case (Cleared j token a)
  obtain ops s where "finish_job env h i r j a (tr_server t) = (ops, s)" by (metis prod.exhaust)
  from answer [OF assms(1) [unfolded Cleared] this] show ?thesis by (rule exI)
next
  case (Answered ops)
  then show ?thesis using assms by simp
qed

text \<open>
  C23. Whatever the other requests do and however the steps interleave, a request takes at most
  five steps of its own: until it is answered it can always take the next one, no other
  request moves it or takes that step away, and its answer is final.
\<close>

theorem request_always_answered:
  assumes "traffic_run g env h t ls t'" and "tr_flights t n = None"
  shows "count_list ls (Some n) \<le> 5
    \<and> (count_list ls (Some n) = 5 \<longrightarrow> (\<exists>r i ops. tr_flights t' n = Some (r, i, Answered ops)))
    \<and> (count_list ls (Some n) = 0 \<longrightarrow> tr_flights t' n = None)
    \<and> (\<forall>r i f. tr_flights t' n = Some (r, i, f) \<longrightarrow>
          (\<exists>ops. f = Answered ops) \<or> (\<exists>t''. traffic_step g env h t' (Some n) t''))
    \<and> (\<forall>r i ops ks u. tr_flights t' n = Some (r, i, Answered ops) \<longrightarrow> traffic_run g env h t' ks u \<longrightarrow>
          tr_flights u n = Some (r, i, Answered ops))"
proof -
  have left: "count_list ls (Some n) + steps_left (tr_flights t' n) \<le> 5"
    using run_steps_left [OF assms(1), of n] assms(2) by simp
  have zero: "steps_left x = 0 \<longleftrightarrow> (\<exists>r i ops. x = Some (r, i, Answered ops))" for x
    by (cases "(x)" rule: steps_left.cases) simp_all
  have final: "tr_flights u n = tr_flights t' n"
    if "steps_left (tr_flights t' n) = 0" "traffic_run g env h t' ks u" for ks u
    using run_moves_only_own [OF that(2), of n] run_steps_left [OF that(2), of n] that(1) by simp
  have enabled: "(\<exists>ops. f = Answered ops) \<or> (\<exists>t''. traffic_step g env h t' (Some n) t'')"
    if "tr_flights t' n = Some (r, i, f)" for r i f
    using flight_can_step [OF that] that zero [of "tr_flights t' n"] by fastforce
  show ?thesis
  proof (intro conjI allI impI)
    show "count_list ls (Some n) \<le> 5" using left by simp
    show "count_list ls (Some n) = 5 \<Longrightarrow> \<exists>r i ops. tr_flights t' n = Some (r, i, Answered ops)"
      using left zero [of "tr_flights t' n"] by simp
    show "count_list ls (Some n) = 0 \<Longrightarrow> tr_flights t' n = None" using run_moves_only_own [OF assms(1)] assms(2) by simp
    show "tr_flights u n = Some (r, i, Answered ops)"
      if "tr_flights t' n = Some (r, i, Answered ops)" "traffic_run g env h t' ks u" for r i ops ks u
      using final [OF _ that(2)] that(1) by simp
  qed (rule enabled)
qed

subsection \<open>A run of one request alone is the handler\<close>

text \<open>What a flight has still to do, run without anything in between.\<close>

fun resume ::
    "golib \<Rightarrow> 'w lfs_env \<Rightarrow> Handler \<Rightarrow> string \<Rightarrow> http_request \<Rightarrow> flight \<Rightarrow> 'w server \<Rightarrow> ops \<times> 'w server" where
  "resume g env h i r (Looking j token) s =
     after_authorize env h i r j (lfs_authorize g env (req_owner r) (req_repository r) token s)"
| "resume g env h i r (Asking j token) s =
     (case env_authorize env (req_owner r) (req_repository r) token (sv_world s) of
        (Inl e, w) \<Rightarrow> (writeForgeError i e, s\<lparr>sv_world := w\<rparr>)
      | (Inr auth, w) \<Rightarrow>
          finish_job env h i r j auth (s\<lparr>sv_world := w,
            sv_cache := cache_Put g (sv_cache s) (env_now env w) token (req_owner r) (req_repository r) auth\<rparr>))"
| "resume g env h i r (Storing j token auth) s =
     finish_job env h i r j auth
       (s\<lparr>sv_cache := cache_Put g (sv_cache s) (env_now env (sv_world s)) token (req_owner r) (req_repository r) auth\<rparr>)"
| "resume g env h i r (Cleared j token auth) s = finish_job env h i r j auth s"
| "resume g env h i r (Answered ops) s = (ops, s)"

lemma resume_step:
  assumes "traffic_step g env h t (Some n) t'" and "tr_flights t n = Some (r, i, f)"
  shows "\<exists>f'. tr_flights t' n = Some (r, i, f')
    \<and> resume g env h i r f' (tr_server t') = resume g env h i r f (tr_server t)"
  using assms
  by cases (auto simp: lfs_authorize_def after_authorize_def Let_def split: sum.split prod.split)

lemma resume_arrival:
  assumes "traffic_step g env h t (Some n) t'" and "tr_flights t n = None"
  shows "\<exists>e r i f. tr_flights t' n = Some (r, i, f)
    \<and> resume g env h i r f (tr_server t') = serve_endpoint e g env h i r (tr_server t)"
  using assms
proof cases
  case (reject e i r ops)
  then show ?thesis by (intro exI [of _ e] exI [of _ r] exI [of _ i]) (simp add: endpoint_parts)
next
  case (arrive e i r j token)
  then show ?thesis by (intro exI [of _ e] exI [of _ r] exI [of _ i]) (simp add: endpoint_parts)
qed simp_all

lemma solo_run_resumes:
  assumes "traffic_run g env h t ls t'" and "set ls \<subseteq> {Some n}" and "tr_flights t n = None" and "ls \<noteq> []"
  shows "\<exists>e r i f. tr_flights t' n = Some (r, i, f)
    \<and> resume g env h i r f (tr_server t') = serve_endpoint e g env h i r (tr_server t)"
  using assms
proof (induction rule: traffic_run.induct)
  case (onward t ls u l v)
  show ?case
  proof (cases "ls = []")
    case True
    with onward have "u = t" by (auto elim: traffic_run.cases)
    then show ?thesis using resume_arrival [of g env h t n v] onward by simp
  next
    case False
    with onward obtain e r i f where "tr_flights u n = Some (r, i, f)"
      "resume g env h i r f (tr_server u) = serve_endpoint e g env h i r (tr_server t)" by auto
    then show ?thesis using resume_step [of g env h u n v r i f] onward by auto
  qed
qed simp

lemma solo_run_to_answer:
  assumes "tr_flights t n = Some (r, i, f)"
  shows "\<exists>ls t' ops. traffic_run g env h t ls t' \<and> set ls \<subseteq> {Some n} \<and> tr_flights t' n = Some (r, i, Answered ops)"
  using assms
proof (induction "steps_left (tr_flights t n)" arbitrary: t f rule: less_induct)
  case less
  show ?case
  proof (cases "steps_left (tr_flights t n) = 0")
    case True
    then have "\<exists>ops. f = Answered ops" using less.prems by (cases f) auto
    then show ?thesis using less.prems idle by (metis empty_iff empty_set subsetI)
  next
    case False
    then obtain u where u: "traffic_step g env h t (Some n) u" using flight_can_step less.prems by blast
    obtain f' where "tr_flights u n = Some (r, i, f')" using resume_step [OF u less.prems] by blast
    from less.hyps [OF own_step [OF u] this] obtain ls t' ops where
      run: "traffic_run g env h u ls t'" "set ls \<subseteq> {Some n}" "tr_flights t' n = Some (r, i, Answered ops)" by blast
    have "traffic_run g env h t [Some n] u" using onward [OF idle u] by simp
    then have "traffic_run g env h t (Some n # ls) t'" using traffic_run_trans run(1) by fastforce
    then show ?thesis using run by (intro exI [of _ "Some n # ls"] exI [of _ t'] exI [of _ ops]) simp
  qed
qed

lemma arrival_enabled:
  assumes "tr_flights t n = None"
  shows "\<exists>u f. traffic_step g env h t (Some n) u \<and> tr_flights u n = Some (r, i, f)
    \<and> resume g env h i r f (tr_server u) = serve_endpoint e g env h i r (tr_server t)"
proof (cases "front e g h i r")
  case (Inl ops)
  from reject [OF assms this] show ?thesis using Inl
    by (intro exI [of _ "put_flight n r i (Answered ops) (tr_server t) [] t"] exI [of _ "Answered ops"])
      (simp add: endpoint_parts)
next
  case (Inr jt)
  obtain j token where jt: "jt = (j, token)" by (cases jt)
  from arrive [OF assms Inr [unfolded jt]] show ?thesis using Inr jt
    by (intro exI [of _ "put_flight n r i (Looking j token) (tr_server t) [] t"] exI [of _ "Looking j token"])
      (simp add: endpoint_parts)
qed

lemma solo_run_keeps_rest:
  assumes "traffic_run g env h t ls t'" and "set ls \<subseteq> {Some n}" and "tr_flights t n = Some (r, i, f)"
  shows "\<exists>f'. tr_flights t' n = Some (r, i, f')
    \<and> resume g env h i r f' (tr_server t') = resume g env h i r f (tr_server t)"
  using assms
proof (induction rule: traffic_run.induct)
  case (onward t ls u l v)
  then obtain f' where "tr_flights u n = Some (r, i, f')"
    "resume g env h i r f' (tr_server u) = resume g env h i r f (tr_server t)" by auto
  then show ?case using resume_step [of g env h u n v r i f'] onward by auto
qed simp

lemma solo_handler_run:
  assumes "tr_flights t n = None" and "serve_endpoint e g env h i r (tr_server t) = (ops, s')"
  shows "\<exists>ls t'. traffic_run g env h t ls t' \<and> set ls \<subseteq> {Some n}
    \<and> tr_flights t' n = Some (r, i, Answered ops) \<and> tr_server t' = s'"
proof -
  from arrival_enabled [OF assms(1)] obtain u f where u: "traffic_step g env h t (Some n) u"
    "tr_flights u n = Some (r, i, f)" "resume g env h i r f (tr_server u) = (ops, s')"
    unfolding assms(2) [symmetric] by blast
  obtain ls t' ops' where run: "traffic_run g env h u ls t'" "set ls \<subseteq> {Some n}"
    "tr_flights t' n = Some (r, i, Answered ops')" using solo_run_to_answer [OF u(2)] by blast
  then have "(ops', tr_server t') = (ops, s')" using solo_run_keeps_rest [OF run(1,2) u(2)] u(3) by simp
  moreover have "traffic_run g env h t (Some n # ls) t'"
    using traffic_run_trans [OF onward [OF idle u(1)] run(1)] by simp
  ultimately show ?thesis using run by (intro exI [of _ "Some n # ls"] exI [of _ t']) simp
qed

lemma ex_endpoint: "(\<exists>e. P e) \<longleftrightarrow> P BatchEndpoint \<or> P VerifyEndpoint"
  by (metis endpoint.exhaust)

lemma solo_run_handler:
  assumes "traffic_run g env h t ls t'" and "set ls \<subseteq> {Some n}" and "tr_flights t n = None"
    and "tr_flights t' n = Some (r, i, Answered ops)"
  shows "\<exists>e. serve_endpoint e g env h i r (tr_server t) = (ops, tr_server t')"
proof -
  have "ls \<noteq> []" using assms by (auto elim: traffic_run.cases)
  from solo_run_resumes [OF assms(1-3) this] assms(4) show ?thesis by auto
qed

text \<open>
  C8. A request that runs without interruption does what the sequential handler does: the steps
  of one flight alone lead from a server to exactly the answer and the server that \<open>batch\<close> or
  \<open>verify\<close> computes, and to no other.
\<close>

theorem solo_run_is_the_handler:
  assumes "tr_flights t n = None"
  shows "(\<exists>ls t'. traffic_run g env h t ls t' \<and> set ls \<subseteq> {Some n}
        \<and> tr_flights t' n = Some (r, i, Answered ops) \<and> tr_server t' = s')
    \<longleftrightarrow> batch g env h i r (tr_server t) = (ops, s') \<or> verify g env h i r (tr_server t) = (ops, s')"
proof -
  have "batch g env h i r (tr_server t) = (ops, s') \<or> verify g env h i r (tr_server t) = (ops, s')
    \<longleftrightarrow> (\<exists>e. serve_endpoint e g env h i r (tr_server t) = (ops, s'))"
    by (simp add: ex_endpoint serve_endpoint_def)
  then show ?thesis
    by (metis (no_types, lifting) solo_handler_run [OF assms] solo_run_handler [OF _ _ assms])
qed

text \<open>A concrete run for the witnesses: one batch, from its arrival to status 200.\<close>

definition traffic0 :: "time traffic" where
  "traffic0 = traffic_start (newWithClock 10 AuthorizationCacheTTL ''s'') None 0"

lemma traffic0_batch:
  "\<exists>ops s'. batch lib0 env1 handler0 ''id'' request0 (tr_server traffic0) = (ops, s')
     \<and> final_status (run_writes ops empty_response) = 200"
proof -
  obtain s1 where "lfs_authorize lib0 env1 (req_owner request0) (req_repository request0) ''ghu_x'' (tr_server traffic0) = (Inr auth0, s1)"
    by (simp add: traffic0_def traffic_start_def lfs_authorize_def cache_Get_def newWithClock_def env1_def)
  from batch_granted [OF request0_admissible this, of "''id''"] show ?thesis
    by (cases "batch lib0 env1 handler0 ''id'' request0 (tr_server traffic0)")
      (simp add: sufficient_def auth0_def)
qed

lemma traffic0_run:
  "\<exists>ls t ops. traffic_run lib0 env1 handler0 traffic0 ls t \<and> tr_flights t 7 = Some (request0, ''id'', Answered ops)
     \<and> final_status (run_writes ops empty_response) = 200"
proof -
  have "tr_flights traffic0 7 = None" by (simp add: traffic0_def traffic_start_def)
  moreover obtain ops s' where "serve_endpoint BatchEndpoint lib0 env1 handler0 ''id'' request0 (tr_server traffic0) = (ops, s')"
    "final_status (run_writes ops empty_response) = 200" using traffic0_batch by (auto simp: serve_endpoint_def)
  ultimately show ?thesis by (meson solo_handler_run)
qed

lemma solo_run_is_the_handler_witness:
  "\<exists>ls t' ops s'. traffic_run lib0 env1 handler0 traffic0 ls t' \<and> set ls \<subseteq> {Some 7}
     \<and> tr_flights t' 7 = Some (request0, ''id'', Answered ops) \<and> tr_server t' = s'"
proof -
  have "tr_flights traffic0 7 = None" by (simp add: traffic0_def traffic_start_def)
  from solo_run_is_the_handler [OF this] traffic0_batch show ?thesis by blast
qed


lemma request_always_answered_witness:
  "\<exists>ls t. traffic_run lib0 env1 handler0 traffic0 ls t \<and> ls \<noteq> [] \<and> count_list ls (Some 7) \<le> 5"
proof -
  obtain ls t ops where run: "traffic_run lib0 env1 handler0 traffic0 ls t"
    "tr_flights t 7 = Some (request0, ''id'', Answered ops)" using traffic0_run by blast
  have none: "tr_flights traffic0 7 = None" by (simp add: traffic0_def traffic_start_def)
  then have "ls \<noteq> []" using run by (auto elim: traffic_run.cases)
  with request_always_answered [OF run(1) none] run(1) show ?thesis by blast
qed

end
