(* ===== verification/LFS_Wire.thy ===== *)
theory LFS_Wire
  imports LFS_Handler "HOL-Library.List_Lexorder" "HOL-Library.Char_ord"
begin

section \<open>Package lfs: requests and answers as bytes\<close>

text \<open>
  The two ends of a handler on the wire. A request is read from the bytes of its body, within
  the limit of ten megabytes; an answer is the bytes the JSON encoder writes for the payload:
  the tagged fields of its structs in order, those marked omitempty left out when they are
  empty, maps by sorted keys, and a line feed.
\<close>

subsection \<open>Request bodies\<close>

text \<open>
  A body is read exactly when it is one value of the right kind with nothing but space around
  it, no longer than the limit, and the stream ends properly.
\<close>

lemma readJSON_exact:
  "readJSON g dec zero r = Inr v \<longleftrightarrow>
     content_type g r \<in> {MediaType, ''application/json''}
     \<and> int (length (str_bytes (req_Body r))) \<le> MaximumBatchRequestSize \<and> str_end (req_Body r) = EOF
     \<and> (\<exists>j t. scan_json AValue [] (str_bytes (req_Body r)) = Scanned j t \<and> skip_space t = [] \<and> dec j zero = Some v)"
proof (cases "content_type g r \<in> {MediaType, ''application/json''}")
  case True
  let ?in = "MaxBytesReader MaximumBatchRequestSize (req_Body r)"
  have "readJSON g dec zero r = Inr v \<longleftrightarrow>
      (\<exists>j t. decode_next ?in = Inr (j, t) \<and> dec j zero = Some v \<and> decode_next t = Inl EOF)"
    using True by (auto simp: readJSON_def Let_def split: sum.splits option.splits if_splits)
  also have "\<dots> \<longleftrightarrow> str_end ?in = EOF
      \<and> (\<exists>j t. scan_json AValue [] (str_bytes ?in) = Scanned j t \<and> skip_space t = [] \<and> dec j zero = Some v)"
    by (auto simp: decode_next_value decode_next_end)
  also have "\<dots> \<longleftrightarrow> int (length (str_bytes (req_Body r))) \<le> MaximumBatchRequestSize \<and> str_end (req_Body r) = EOF
      \<and> (\<exists>j t. scan_json AValue [] (str_bytes (req_Body r)) = Scanned j t \<and> skip_space t = [] \<and> dec j zero = Some v)"
    unfolding MaxBytesReader_EOF by (auto simp: MaxBytesReader_def)
  finally show ?thesis using True by blast
next
  case False
  then show ?thesis by (auto simp: readJSON_def)
qed

text \<open>What the first Decode makes of a body that is too long.\<close>

definition cut_body :: "http_request \<Rightarrow> string" where
  "cut_body r = take (nat MaximumBatchRequestSize) (str_bytes (req_Body r))"

definition oversized :: "http_request \<Rightarrow> bool" where
  "oversized r = (MaximumBatchRequestSize < int (length (str_bytes (req_Body r))))"

lemma oversized_not_read: "oversized r \<Longrightarrow> \<exists>e. readJSON g dec zero r = Inl e"
  using readJSON_exact [of g dec zero r] by (cases "readJSON g dec zero r") (auto simp: oversized_def)

definition cut_short :: "'t decoder \<Rightarrow> 't \<Rightarrow> http_request \<Rightarrow> bool" where
  "cut_short dec zero r =
     (case scan_json AValue [] (cut_body r) of
        Scanned j t \<Rightarrow> skip_space t = [] \<and> dec j zero \<noteq> None
      | Malformed \<Rightarrow> False
      | Incomplete \<Rightarrow> True)"

lemma oversized_too_large:
  assumes "oversized r" and "content_type g r \<in> {MediaType, ''application/json''}" and "cut_short dec zero r"
  shows "readJSON g dec zero r = Inl (Wrapped ''decode request'' (Library MaxBytesError))"
proof -
  let ?in = "MaxBytesReader MaximumBatchRequestSize (req_Body r)"
  have input: "str_bytes ?in = cut_body r" "str_end ?in = MaxBytesError"
    using assms(1) by (simp_all add: MaxBytesReader_def oversized_def cut_body_def)
  have "scan_json AValue [] (cut_body r) = Incomplete
      \<or> (\<exists>j t v. scan_json AValue [] (cut_body r) = Scanned j t \<and> skip_space t = [] \<and> dec j zero = Some v)"
    using assms(3) by (auto simp: cut_short_def split: scanned.splits)
  then consider "decode_next ?in = Inl MaxBytesError"
    | j t v where "decode_next ?in = Inr (j, t)" "decode_next t = Inl MaxBytesError" "dec j zero = Some v"
  proof
    assume "scan_json AValue [] (cut_body r) = Incomplete"
    then have "decode_next ?in = Inl MaxBytesError" using input by (simp add: decode_next_def)
    then show thesis by (rule that(1))
  next
    assume "\<exists>j t v. scan_json AValue [] (cut_body r) = Scanned j t \<and> skip_space t = [] \<and> dec j zero = Some v"
    then obtain j t v where jtv: "scan_json AValue [] (cut_body r) = Scanned j t" "skip_space t = []" "dec j zero = Some v"
      by blast
    show thesis
    proof (cases "skip_space (cut_body r) = [] \<or> t = [] \<and> \<not> container j")
      case True
      then have "decode_next ?in = Inl MaxBytesError" using input jtv by (auto simp: decode_next_def)
      then show thesis by (rule that(1))
    next
      case False
      then have "decode_next ?in = Inr (j, ?in\<lparr>str_bytes := t\<rparr>)" using input jtv by (auto simp: decode_next_def)
      moreover have "decode_next (?in\<lparr>str_bytes := t\<rparr>) = Inl MaxBytesError" using input jtv by (simp add: decode_next_def)
      ultimately show thesis using jtv(3) by (rule that(2))
    qed
  qed
  then show ?thesis
    using assms(2) by cases (auto simp: readJSON_def)
qed

text \<open>
  C18. A body longer than ten megabytes is never served. Both endpoints answer 400, 406, 413 or
  415 and touch nothing: no cache entry, no counter, no call of GitHub or the store. It is 413
  whenever the limit cuts a value off, or cuts off space behind a value of the right kind.
\<close>

theorem oversized_request_refused:
  assumes "oversized r"
  shows "snd (batch g env h i r s) = s \<and> snd (verify g env h i r s) = s
    \<and> final_status (run_writes (fst (batch g env h i r s)) empty_response) \<in> {400, 406, 413, 415}
    \<and> final_status (run_writes (fst (verify g env h i r s)) empty_response) \<in> {400, 406, 413, 415}
    \<and> (acceptsLFSJSON g r \<and> content_type g r \<in> {MediaType, ''application/json''} \<longrightarrow>
       (cut_short decode_batchRequest batchRequest_zero r \<longrightarrow>
          final_status (run_writes (fst (batch g env h i r s)) empty_response) = 413)
       \<and> (cut_short decode_requestObject requestObject_zero r \<longrightarrow>
          final_status (run_writes (fst (verify g env h i r s)) empty_response) = 413))"
proof -
  obtain e e' where e: "readJSON g decode_batchRequest batchRequest_zero r = Inl e"
      "readJSON g decode_requestObject requestObject_zero r = Inl e'"
    using oversized_not_read [OF assms] by metis
  have b: "batch g env h i r s = (if \<not> acceptsLFSJSON g r then (writeError i 406 ''response media type is not acceptable'', s)
      else (writeError i (decode_status e) (err_text (lib_error_text g) e), s))"
    by (simp add: batch_def e)
  have v: "verify g env h i r s = (if \<not> acceptsLFSJSON g r then (writeError i 406 ''response media type is not acceptable'', s)
      else (writeError i (decode_status e') (err_text (lib_error_text g) e'), s))"
    by (simp add: verify_def e)
  have status: "decode_status x \<in> {400, 413, 415}" for x by (simp add: decode_status_def)
  have cut: "decode_status (Wrapped ''decode request'' (Library MaxBytesError)) = 413" by (simp add: decode_status_def)
  have "decode_status e = 413"
    if "content_type g r \<in> {MediaType, ''application/json''}" "cut_short decode_batchRequest batchRequest_zero r"
    using oversized_too_large [OF assms that] e(1) cut by simp
  moreover have "decode_status e' = 413"
    if "content_type g r \<in> {MediaType, ''application/json''}" "cut_short decode_requestObject requestObject_zero r"
    using oversized_too_large [OF assms that] e(2) cut by simp
  ultimately show ?thesis unfolding b v 
    using status [of e] status [of e'] by auto
qed

definition flood0 :: http_request where
  "flood0 = request0\<lparr>req_Body := text_stream (replicate 10485761 (CHR '' ''))\<rparr>"

lemma oversized_request_refused_witness:
  "snd (batch lib0 env1 handler0 ''id'' flood0 server0) = server0
    \<and> final_status (run_writes (fst (batch lib0 env1 handler0 ''id'' flood0 server0)) empty_response) = 413"
proof -
  have "oversized flood0" by (simp add: oversized_def flood0_def text_stream_def MaximumBatchRequestSize_def)
  moreover have "acceptsLFSJSON lib0 flood0" by (simp add: acceptsLFSJSON_def flood0_def request0_def Let_def ascii_string_def)
  moreover have "content_type lib0 flood0 = content_type lib0 request0" by (simp add: content_type_def flood0_def)
  moreover have "content_type lib0 request0 = ''application/json''" by code_simp
  moreover have "skip_space (cut_body flood0) = []"
    by (auto simp: cut_body_def flood0_def text_stream_def skip_space_def json_space_def dest: in_set_takeD)
  then have "scan_json AValue [] (cut_body flood0) = Incomplete" by (subst scan_json.simps(1)) simp
  then have "cut_short decode_batchRequest batchRequest_zero flood0" by (simp add: cut_short_def)
  ultimately show ?thesis using oversized_request_refused [of flood0 lib0 env1 handler0 "''id''" server0] by simp
qed

subsection \<open>What a client sends is what is read\<close>

definition object_json :: "requestObject \<Rightarrow> json" where
  "object_json ob = JObj [(''oid'', JStr (ro_OID ob)), (''size'', JNum (format_int (ro_Size ob)))]"

definition request_json :: "batchRequest \<Rightarrow> json" where
  "request_json input = JObj [(''operation'', JStr (br_Operation input)),
     (''transfers'', JArr (map JStr (br_Transfers input))), (''hash_algo'', JStr (br_HashAlgo input)),
     (''objects'', JArr (map object_json (br_Objects input)))]"

definition wire_object :: "requestObject \<Rightarrow> bool" where
  "wire_object ob = (utf8_valid (ro_OID ob) \<and> in_int64 (ro_Size ob))"

definition wire_request :: "batchRequest \<Rightarrow> bool" where
  "wire_request input =
     (utf8_valid (br_Operation input) \<and> list_all utf8_valid (br_Transfers input) \<and> br_Ref input = JNull
      \<and> utf8_valid (br_HashAlgo input) \<and> list_all wire_object (br_Objects input))"

lemma ascii_names [simp]:
  "utf8_coerce ''operation'' = ''operation''" "utf8_coerce ''transfers'' = ''transfers''"
  "utf8_coerce ''hash_algo'' = ''hash_algo''" "utf8_coerce ''objects'' = ''objects''"
  "utf8_coerce ''oid'' = ''oid''" "utf8_coerce ''size'' = ''size''"
  by (simp_all add: utf8_coerce_ascii ascii_string_def)

lemma object_json_utf8: "wire_object ob \<Longrightarrow> json_utf8 (object_json ob) = object_json ob"
  by (simp add: object_json_def wire_object_def utf8_valid_def)

lemma request_json_utf8: "wire_request input \<Longrightarrow> json_utf8 (request_json input) = request_json input"
  by (auto simp: request_json_def wire_request_def utf8_valid_def list_all_iff object_json_utf8)

lemma request_json_writable:
  "writable max_depth (object_json ob)" "writable max_depth (request_json input)"
  by (simp_all add: object_json_def request_json_def max_depth_def list_all_iff)

lemma object_json_decoded:
  "wire_object ob \<Longrightarrow> decode_requestObject (object_json ob) requestObject_zero = Some ob"
  by (simp add: decode_requestObject_def object_json_def wire_object_def requestObject_zero_def decode_simps parse_format_int)

lemma decode_elems_map:
  "(\<And>x. x \<in> set xs \<Longrightarrow> d (f x) zero = Some x) \<Longrightarrow> decode_elems d zero [] (map f xs) = Some xs"
  by (induction xs) auto

lemma request_json_decoded:
  assumes "wire_request input"
  shows "decode_batchRequest (request_json input) batchRequest_zero = Some input"
proof -
  have "decode_elems decode_string [] [] (map JStr (br_Transfers input)) = Some (br_Transfers input)"
    by (rule decode_elems_map) (simp add: decode_string_def)
  moreover have "decode_elems decode_requestObject requestObject_zero [] (map object_json (br_Objects input)) = Some (br_Objects input)"
    using assms by (intro decode_elems_map object_json_decoded) (auto simp: wire_request_def list_all_iff)
  ultimately show ?thesis using assms
    by (simp add: decode_batchRequest_def request_json_def wire_request_def batchRequest_zero_def decode_simps)
qed

lemma json_space_no_number: "json_space c \<Longrightarrow> \<not> digit c \<and> c \<notin> set ''.eE''"
  by (auto simp: json_space_def digit_def between_def)

lemma space_delimited: "skip_space t = [] \<Longrightarrow> delimited t"
proof (cases t)
  case (Cons c s)
  moreover assume "skip_space t = []"
  ultimately have "json_space c" by (simp add: skip_space_def split: if_splits)
  then show ?thesis using json_space_no_number [of c] Cons by (simp add: delimited_def)
qed simp

lemma readJSON_text:
  assumes "content_type g r \<in> {MediaType, ''application/json''}"
    and "req_Body r = text_stream (json_text j @ t)" and "skip_space t = []"
    and "int (length (json_text j @ t)) \<le> MaximumBatchRequestSize"
    and "writable max_depth j" and "dec (json_utf8 j) zero = Some v"
  shows "readJSON g dec zero r = Inr v"
proof -
  have bytes: "str_bytes (req_Body r) = json_text j @ t" "str_end (req_Body r) = EOF"
    using assms(2) by (simp_all add: text_stream_def)
  have "scan_json AValue [] (json_text j @ t) = Scanned (json_utf8 j) t"
    by (rule scan_text [OF assms(5) space_delimited [OF assms(3)]])
  then show ?thesis unfolding readJSON_exact bytes using assms(1,3,4,6) by blast
qed

text \<open>
  C19. The bytes of a request round-trip: whatever strings a client puts into a batch or a verify
  request, quotes, control characters and HTML included, the server reads back exactly the
  request that was encoded, with any space behind it, up to the limit of ten megabytes.
\<close>

theorem request_bytes_roundtrip:
  assumes "content_type g r \<in> {MediaType, ''application/json''}" and "skip_space t = []"
    and "wire_request input" and "wire_object ob"
    and "int (length (json_text (request_json input) @ t)) \<le> MaximumBatchRequestSize"
    and "int (length (json_text (object_json ob) @ t)) \<le> MaximumBatchRequestSize"
  shows "readJSON g decode_batchRequest batchRequest_zero (r\<lparr>req_Body := text_stream (json_text (request_json input) @ t)\<rparr>) = Inr input
    \<and> readJSON g decode_requestObject requestObject_zero (r\<lparr>req_Body := text_stream (json_text (object_json ob) @ t)\<rparr>) = Inr ob"
proof -
  have type: "content_type g (r\<lparr>req_Body := x\<rparr>) \<in> {MediaType, ''application/json''}" for x
    using assms(1) by (simp add: content_type_def)
  have "decode_batchRequest (json_utf8 (request_json input)) batchRequest_zero = Some input"
    "decode_requestObject (json_utf8 (object_json ob)) requestObject_zero = Some ob"
    using request_json_decoded [OF assms(3)] request_json_utf8 [OF assms(3)]
      object_json_decoded [OF assms(4)] object_json_utf8 [OF assms(4)] by simp_all
  note read = this
  have "readJSON g decode_batchRequest batchRequest_zero (r\<lparr>req_Body := text_stream (json_text (request_json input) @ t)\<rparr>) = Inr input"
    by (intro readJSON_text [where j = "request_json input" and t = t] type read assms request_json_writable) simp
  moreover have "readJSON g decode_requestObject requestObject_zero (r\<lparr>req_Body := text_stream (json_text (object_json ob) @ t)\<rparr>) = Inr ob"
    by (intro readJSON_text [where j = "object_json ob" and t = t] type read assms request_json_writable) simp
  ultimately show ?thesis ..
qed

definition input0 :: batchRequest where
  "input0 = \<lparr>br_Operation = ''upload'', br_Transfers = [''basic'', CHR 0x22 # ''<&>''], br_Ref = JNull, br_HashAlgo = [],
     br_Objects = [\<lparr>ro_OID = oid0, ro_Size = 5\<rparr>]\<rparr>"

lemma request_bytes_roundtrip_witness:
  "readJSON lib0 decode_batchRequest batchRequest_zero
      (request0\<lparr>req_Body := text_stream (json_text (request_json input0) @ [CHR 0x0A])\<rparr>) = Inr input0"
proof -
  have "content_type lib0 request0 = ''application/json''" by code_simp
  then have type: "content_type lib0 request0 \<in> {MediaType, ''application/json''}" by simp
  have space: "skip_space [CHR 0x0A] = []" by (simp add: skip_space_def json_space_def)
  have "ascii_string oid0" by code_simp
  then have wire: "wire_request input0" "wire_object \<lparr>ro_OID = oid0, ro_Size = 5\<rparr>"
    by (simp_all add: wire_request_def wire_object_def input0_def ascii_valid ascii_string_def int64_defs)
  have size: "int (length (json_text (request_json input0) @ [CHR 0x0A])) \<le> MaximumBatchRequestSize"
    "int (length (json_text (object_json \<lparr>ro_OID = oid0, ro_Size = 5\<rparr>) @ [CHR 0x0A])) \<le> MaximumBatchRequestSize"
    by code_simp+
  show ?thesis by (rule conjunct1 [OF request_bytes_roundtrip [OF type space wire size]])
qed

subsection \<open>Answers as bytes\<close>

text \<open>A map's members by sorted keys, and a member that is left out when it is empty.\<close>

definition map_members :: "('v \<Rightarrow> json) \<Rightarrow> (string \<rightharpoonup> 'v) \<Rightarrow> (string \<times> json) list" where
  "map_members f m = map (\<lambda>k. (k, f (the (m k)))) (sorted_list_of_set (dom m))"

definition omitempty :: "bool \<Rightarrow> string \<Rightarrow> json \<Rightarrow> (string \<times> json) list" where
  "omitempty skip name j = (if skip then [] else [(name, j)])"

definition int_json :: "int \<Rightarrow> json" where
  "int_json i = JNum (format_int i)"

definition map_json :: "('v \<Rightarrow> json) \<Rightarrow> (string \<rightharpoonup> 'v) \<Rightarrow> json" where
  "map_json f m = JObj (map_members f m)"

definition action_json :: "action \<Rightarrow> json" where
  "action_json a = JObj ([(''href'', JStr (ac_Href a))]
     @ omitempty (dom (ac_Header a) = {}) ''header'' (map_json JStr (ac_Header a))
     @ omitempty (ac_ExpiresIn a = 0) ''expires_in'' (int_json (ac_ExpiresIn a))
     @ omitempty (\<not> ac_Authenticated a) ''authenticated'' (JBool (ac_Authenticated a)))"

definition error_json :: "objectError \<Rightarrow> json" where
  "error_json e = JObj [(''code'', int_json (oe_Code e)), (''message'', JStr (oe_Message e))]"

definition responseObject_json :: "responseObject \<Rightarrow> json" where
  "responseObject_json ob = JObj ([(''oid'', JStr (rs_OID ob)), (''size'', int_json (rs_Size ob))]
     @ omitempty (\<not> rs_Authenticated ob) ''authenticated'' (JBool (rs_Authenticated ob))
     @ omitempty (dom (rs_Actions ob) = {}) ''actions'' (map_json action_json (rs_Actions ob))
     @ (case rs_Error ob of None \<Rightarrow> [] | Some e \<Rightarrow> [(''error'', error_json e)]))"

fun payload_json :: "payload \<Rightarrow> json" where
  "payload_json (ErrorPayload e) = JObj [(''message'', JStr (er_Message e)), (''request_id'', JStr (er_RequestID e))]"
| "payload_json (BatchPayload b) = JObj [(''transfer'', JStr (bs_Transfer b)), (''hash_algo'', JStr (bs_HashAlgo b)),
     (''objects'', JArr (map responseObject_json (bs_Objects b)))]"
| "payload_json (VerifyPayload oid) = JObj [(''oid'', JStr oid)]"
| "payload_json (TextPayload t) = JStr t"

text \<open>The encoder ends a value with a line feed; plain text goes out as it is.\<close>

definition payload_bytes :: "payload \<Rightarrow> string" where
  "payload_bytes p = (case p of TextPayload t \<Rightarrow> t | _ \<Rightarrow> json_text (payload_json p) @ [CHR 0x0A])"

definition is_text :: "payload \<Rightarrow> bool" where
  "is_text p = (case p of TextPayload _ \<Rightarrow> True | _ \<Rightarrow> False)"

lemma action_json_writable: "2 \<le> n \<Longrightarrow> writable n (action_json a)"
  by (auto simp: action_json_def omitempty_def int_json_def map_json_def map_members_def list_all_iff)

lemma responseObject_json_writable: "4 \<le> n \<Longrightarrow> writable n (responseObject_json ob)"
  using action_json_writable [of "n - 2"]
  by (auto simp: responseObject_json_def error_json_def omitempty_def int_json_def map_json_def map_members_def
      list_all_iff split: option.splits)

lemma payload_json_writable: "writable max_depth (payload_json p)"
  using responseObject_json_writable [of "max_depth - 2"]
  by (cases p) (simp_all add: max_depth_def list_all_iff)

lemma newline_end: "decode_next (text_stream [CHR 0x0A]) = Inl EOF"
  by (simp add: decode_next_end text_stream_def skip_space_def json_space_def)

lemma payload_bytes_read:
  "\<not> is_text p \<Longrightarrow> decode_next (text_stream (payload_bytes p)) = Inr (json_utf8 (payload_json p), text_stream [CHR 0x0A])"
  using decode_text [OF payload_json_writable, of "[CHR 0x0A]" p]
  by (cases p) (simp_all add: payload_bytes_def is_text_def)

text \<open>One payload that is not plain text.\<close>

definition json_answer :: "ops \<Rightarrow> bool" where
  "json_answer ops = (\<exists>p. body (run_writes ops empty_response) = [p] \<and> \<not> is_text p)"

lemma json_answer_simps [simp]:
  "json_answer (writeError i c msg)" "json_answer (writeAuthenticationError i msg)" "json_answer (writeForgeError i e)"
  "json_answer (writeJSON c (BatchPayload b))" "json_answer (writeJSON c (VerifyPayload v))"
  by (simp_all add: json_answer_def write_defs run_defs is_text_def)

lemma handlers_answer_json: "json_answer (fst (batch g env h i r s))" "json_answer (fst (verify g env h i r s))"
  by (auto simp: batch_def verify_def Let_def split: sum.split option.split prod.split)

text \<open>
  Both endpoints answer every request, errors included, with bytes that a JSON decoder reads
  as exactly one value, the payload's, and then the end of the stream; strings that are not
  valid UTF-8 arrive with replacement characters.
\<close>

theorem answer_is_one_json_value:
  "(\<exists>p. body (run_writes (fst (batch g env h i r s)) empty_response) = [p]
     \<and> decode_next (text_stream (payload_bytes p)) = Inr (json_utf8 (payload_json p), text_stream [CHR 0x0A]))
   \<and> (\<exists>p. body (run_writes (fst (verify g env h i r s)) empty_response) = [p]
     \<and> decode_next (text_stream (payload_bytes p)) = Inr (json_utf8 (payload_json p), text_stream [CHR 0x0A]))
   \<and> decode_next (text_stream [CHR 0x0A]) = Inl EOF"
  using handlers_answer_json [of g env h i r s] payload_bytes_read newline_end unfolding json_answer_def by meson

subsection \<open>Nothing is lost on the wire\<close>

definition wire_map :: "('v \<Rightarrow> bool) \<Rightarrow> (string \<rightharpoonup> 'v) \<Rightarrow> bool" where
  "wire_map P m = (finite (dom m) \<and> (\<forall>k v. m k = Some v \<longrightarrow> utf8_valid k \<and> P v))"

definition wire_action :: "action \<Rightarrow> bool" where
  "wire_action a = (utf8_valid (ac_Href a) \<and> wire_map utf8_valid (ac_Header a) \<and> in_int64 (ac_ExpiresIn a))"

definition wire_response :: "responseObject \<Rightarrow> bool" where
  "wire_response ob =
     (utf8_valid (rs_OID ob) \<and> in_int64 (rs_Size ob) \<and> wire_map wire_action (rs_Actions ob)
      \<and> (\<forall>e. rs_Error ob = Some e \<longrightarrow> in_int64 (oe_Code e) \<and> utf8_valid (oe_Message e)))"

fun wire_payload :: "payload \<Rightarrow> bool" where
  "wire_payload (ErrorPayload e) = (utf8_valid (er_Message e) \<and> utf8_valid (er_RequestID e))"
| "wire_payload (BatchPayload b) =
     (utf8_valid (bs_Transfer b) \<and> utf8_valid (bs_HashAlgo b) \<and> list_all wire_response (bs_Objects b))"
| "wire_payload (VerifyPayload oid) = utf8_valid oid"
| "wire_payload (TextPayload t) = False"

lemma ascii_tags [simp]:
  "utf8_coerce ''href'' = ''href''" "utf8_coerce ''header'' = ''header''" "utf8_coerce ''expires_in'' = ''expires_in''"
  "utf8_coerce ''authenticated'' = ''authenticated''" "utf8_coerce ''actions'' = ''actions''" "utf8_coerce ''error'' = ''error''"
  "utf8_coerce ''code'' = ''code''" "utf8_coerce ''message'' = ''message''" "utf8_coerce ''request_id'' = ''request_id''"
  "utf8_coerce ''transfer'' = ''transfer''"
  by (simp_all add: utf8_coerce_ascii ascii_string_def)

lemma map_json_utf8:
  assumes "wire_map P m" and "\<And>v. P v \<Longrightarrow> json_utf8 (f v) = f v"
  shows "json_utf8 (map_json f m) = map_json f m"
  using assms by (auto simp: map_json_def map_members_def wire_map_def utf8_valid_def dom_def)

lemma json_utf8_string [simp]: "utf8_valid s \<Longrightarrow> json_utf8 (JStr s) = JStr s"
  by (simp add: utf8_valid_def)

lemma action_json_utf8: "wire_action a \<Longrightarrow> json_utf8 (action_json a) = action_json a"
  using map_json_utf8 [of utf8_valid "ac_Header a" JStr]
  by (simp add: action_json_def wire_action_def omitempty_def int_json_def utf8_valid_def)

lemma response_json_utf8: "wire_response ob \<Longrightarrow> json_utf8 (responseObject_json ob) = responseObject_json ob"
  using map_json_utf8 [OF _ action_json_utf8, of wire_action "rs_Actions ob"]
  by (auto simp: responseObject_json_def wire_response_def omitempty_def int_json_def error_json_def utf8_valid_def
      split: option.splits)

lemma payload_json_utf8: "wire_payload p \<Longrightarrow> json_utf8 (payload_json p) = payload_json p"
  by (cases p) (auto simp: utf8_valid_def list_all_iff response_json_utf8)

lemma map_json_inject:
  assumes "map_json f m = map_json f' m'" and "wire_map P m" and "wire_map P' m'"
    and "\<And>v w. P v \<Longrightarrow> P' w \<Longrightarrow> f v = f' w \<Longrightarrow> v = w"
  shows "m = m'"
proof -
  have members: "map_members f m = map_members f' m'" using assms(1) by (simp add: map_json_def)
  have "map fst (map_members f m) = map fst (map_members f' m')" using members by simp
  then have "sorted_list_of_set (dom m) = sorted_list_of_set (dom m')"
    by (simp add: map_members_def comp_def)
  then have dom: "dom m = dom m'"
    using assms(2,3) unfolding wire_map_def by (metis set_sorted_list_of_set)
  have "m k = m' k" for k
  proof (cases "k \<in> dom m")
    case True
    then obtain v w where vw: "m k = Some v" "m' k = Some w" using dom by (metis domD)
    have "\<forall>x \<in> set (sorted_list_of_set (dom m)). f (the (m x)) = f' (the (m' x))"
      using members dom by (simp add: map_members_def)
    moreover have "finite (dom m)" using assms(2) by (simp add: wire_map_def)
    ultimately have "f (the (m k)) = f' (the (m' k))" using True by simp
    then have "f v = f' w" using vw by simp
    then show ?thesis using assms(2-4) vw unfolding wire_map_def by metis
  next
    case False
    then show ?thesis using dom by (metis domIff)
  qed
  then show ?thesis ..
qed

lemma int_json_inject: "in_int64 i \<Longrightarrow> in_int64 j \<Longrightarrow> int_json i = int_json j \<longleftrightarrow> i = j"
  by (simp add: int_json_def format_int_inject)

lemma omitempty_Nil [simp]: "omitempty skip name j = [] \<longleftrightarrow> skip"
  by (simp add: omitempty_def)

lemma action_json_inject:
  assumes "action_json a = action_json b" and "wire_action a" and "wire_action b"
  shows "a = b"
proof -
  have header: "map_json JStr (ac_Header a) = map_json JStr (ac_Header b) \<Longrightarrow> ac_Header a = ac_Header b"
    using assms(2,3) by (auto simp: wire_action_def intro: map_json_inject)
  have ints: "in_int64 (ac_ExpiresIn a)" "in_int64 (ac_ExpiresIn b)" using assms(2,3) by (simp_all add: wire_action_def)
  have "ac_Href a = ac_Href b \<and> ac_Header a = ac_Header b \<and> ac_ExpiresIn a = ac_ExpiresIn b \<and> ac_Authenticated a = ac_Authenticated b"
    using assms(1) header int_json_inject [OF ints]
    by (cases "dom (ac_Header a) = {}"; cases "dom (ac_Header b) = {}"; cases "ac_ExpiresIn a = 0"; cases "ac_ExpiresIn b = 0";
        cases "ac_Authenticated a"; cases "ac_Authenticated b") (simp_all add: action_json_def omitempty_def)
  then show ?thesis by (cases a; cases b) simp
qed


lemma map_of_omitempty [simp]:
  "map_of (omitempty skip name j) = (\<lambda>k. if \<not> skip \<and> k = name then Some j else None)"
  by (auto simp: omitempty_def)

lemma error_json_inject:
  "in_int64 (oe_Code x) \<Longrightarrow> in_int64 (oe_Code y) \<Longrightarrow> error_json x = error_json y \<Longrightarrow> x = y"
  by (cases x; cases y) (simp add: error_json_def int_json_inject)

lemma responseObject_json_inject:
  assumes "responseObject_json a = responseObject_json b" and "wire_response a" and "wire_response b"
  shows "a = b"
proof -
  define members where "members ob = [(''oid'', JStr (rs_OID ob)), (''size'', int_json (rs_Size ob))]
     @ omitempty (\<not> rs_Authenticated ob) ''authenticated'' (JBool (rs_Authenticated ob))
     @ omitempty (dom (rs_Actions ob) = {}) ''actions'' (map_json action_json (rs_Actions ob))
     @ (case rs_Error ob of None \<Rightarrow> [] | Some e \<Rightarrow> [(''error'', error_json e)])" for ob :: responseObject
  have same: "map_of (members a) k = map_of (members b) k" for k
    using assms(1) by (simp add: responseObject_json_def members_def)
  have "rs_OID a = rs_OID b" using same [of "''oid''"] by (simp add: members_def map_add_def)
  moreover have "rs_Size a = rs_Size b"
    using same [of "''size''"] assms(2,3) by (simp add: members_def map_add_def wire_response_def int_json_inject)
  moreover have "rs_Authenticated a = rs_Authenticated b"
    using same [of "''authenticated''"] by (simp add: members_def map_add_def split: if_splits option.splits)
  moreover have "rs_Actions a = rs_Actions b"
  proof -
    have "dom (rs_Actions a) = {} \<and> dom (rs_Actions b) = {} \<or> map_json action_json (rs_Actions a) = map_json action_json (rs_Actions b)"
      using same [of "''actions''"] by (simp add: members_def map_add_def split: if_splits option.splits)
    then show ?thesis
      using assms(2,3) by (auto simp: wire_response_def intro: map_json_inject action_json_inject)
  qed
  moreover have "rs_Error a = rs_Error b"
  proof -
    have "map_option error_json (rs_Error a) = map_option error_json (rs_Error b)"
      using same [of "''error''"] by (cases "rs_Error a"; cases "rs_Error b") (simp_all add: members_def map_add_def)
    then show ?thesis using assms(2,3)
      by (cases "rs_Error a"; cases "rs_Error b") (auto simp: wire_response_def intro: error_json_inject)
  qed
  ultimately show ?thesis by (cases a; cases b) simp
qed

lemma responses_json_inject:
  assumes "map responseObject_json xs = map responseObject_json ys" and "list_all wire_response xs" and "list_all wire_response ys"
  shows "xs = ys"
  using assms by (induction xs arbitrary: ys) (auto dest: responseObject_json_inject)

lemma payload_json_inject:
  assumes "payload_json p = payload_json q" and "wire_payload p" and "wire_payload q"
  shows "p = q"
proof (cases p)
  case (ErrorPayload e)
  then show ?thesis using assms by (cases q; cases e) auto
next
  case (BatchPayload b)
  then obtain c where "q = BatchPayload c" using assms by (cases q) auto
  then show ?thesis using assms BatchPayload responses_json_inject by (cases b; cases c) simp
next
  case (VerifyPayload v)
  then show ?thesis using assms by (cases q) auto
qed (use assms in simp)

text \<open>
  C20. Nothing of an answer is lost on the wire: two JSON answers with the same bytes are the same
  answer, so the links, header values, sizes and error codes a client reads are exactly those
  the handler put in, signatures with ampersands and omitted fields included.
\<close>

theorem answer_bytes_determine_payload:
  assumes "payload_bytes p = payload_bytes q" and "wire_payload p" and "wire_payload q"
  shows "p = q"
proof -
  have "\<not> is_text p" "\<not> is_text q" using assms(2,3) by (cases p; cases q; simp add: is_text_def)+
  then have "json_utf8 (payload_json p) = json_utf8 (payload_json q)"
    using payload_bytes_read [of p] payload_bytes_read [of q] assms(1) by simp
  then show ?thesis using payload_json_inject payload_json_utf8 assms(2,3) by metis
qed

definition answer0 :: payload where
  "answer0 = BatchPayload \<lparr>bs_Transfer = ''basic'', bs_HashAlgo = ''sha256'', bs_Objects =
     [\<lparr>rs_OID = oid0, rs_Size = 5, rs_Authenticated = True,
       rs_Actions = [''download'' \<mapsto> \<lparr>ac_Href = ''https://s3.example.test/o?a=1&b=2'', ac_Header = Map.empty,
         ac_ExpiresIn = 3600, ac_Authenticated = True\<rparr>], rs_Error = None\<rparr>]\<rparr>"

lemma answer_bytes_determine_payload_witness:
  "\<not> (payload_bytes answer0 = payload_bytes (VerifyPayload oid0))"
proof
  assume same: "payload_bytes answer0 = payload_bytes (VerifyPayload oid0)"
  have oid: "ascii_string oid0" by code_simp
  then have "wire_payload answer0" "wire_payload (VerifyPayload oid0)"
    by (simp_all add: answer0_def wire_response_def wire_action_def wire_map_def ascii_valid ascii_string_def int64_defs)
  from answer_bytes_determine_payload [OF same this] show False by (simp add: answer0_def)
qed

end
