(* ===== verification/Upload_Flow.thy ===== *)
theory Upload_Flow
  imports LFS_Wire
begin

section \<open>An upload from offer to confirmation\<close>

text \<open>
  The Git LFS basic transfer as a client goes through it: a batch offers an upload and a verify
  link, the client stores the object and follows the link. This theory composes the batch and
  verify handlers, the cache and the store's view of the object across the two requests.
\<close>

text \<open>
  A request that follows the verify link of an upload: the path values are those of the batch,
  the credentials are the link's, and the body is the JSON text of the object.
\<close>

definition follows :: "golib \<Rightarrow> action \<Rightarrow> requestObject \<Rightarrow> http_request \<Rightarrow> http_request \<Rightarrow> bool" where
  "follows g link ob r r' =
     (req_owner r' = req_owner r \<and> req_repository r' = req_repository r \<and> acceptsLFSJSON g r'
      \<and> content_type g r' \<in> {MediaType, ''application/json''}
      \<and> ac_Header link ''Authorization'' = Some (req_Header r' ''Authorization'')
      \<and> req_Body r' = text_stream (json_text (object_json ob))
      \<and> int (length (json_text (object_json ob))) \<le> MaximumBatchRequestSize)"

lemma validated_objects:
  "batch_admissible g h r input token \<Longrightarrow> list_all (acceptable_object h) (br_Objects input)"
  by (auto simp: batch_admissible_def validateBatch_def validate_objects_exact split: if_splits)

lemma acceptable_wire_object:
  assumes "acceptable_object h ob" and "in_int64 (h_maxObjectSize h)"
  shows "wire_object ob"
proof -
  have "ascii_string (ro_OID ob)"
    using assms(1) by (auto simp: acceptable_object_def well_formed_oid_def lower_hex_def ascii_string_def list_all_iff dest!: subsetD)
  then show ?thesis using assms by (simp add: wire_object_def acceptable_object_def ascii_valid int64_defs)
qed

lemma upload_comes_with_link:
  "rs_Actions (fst (processObject h store ''upload'' repo owner nm auth input)) ''upload'' = Some a \<Longrightarrow>
     rs_Actions (fst (processObject h store ''upload'' repo owner nm auth input)) ''verify'' = Some (verify_action h owner nm auth)"
  by (auto simp: process_defs matches_def split: sum.splits if_splits)

text \<open>
  C17. What the server offers it later confirms. When a batch without a cached authorization offers
  an upload of an object, it also hands out a verify link with the caller's credentials; a client that stores the object with
  the announced size and follows the link with the object's JSON, within the lifetime of the
  authorization, is answered 200, and GitHub is not asked again.
\<close>

theorem upload_then_verify:
  assumes "cache_inv (sv_cache s)" and "in_int64 (h_maxObjectSize h)"
    and "batch_admissible g h r input token" and "br_Operation input = ''upload''"
    and "fst (cache_Get g (sv_cache s) (env_now env (sv_world s)) token (req_owner r) (req_repository r)) = None"
    and "lfs_authorize g env (req_owner r) (req_repository r) token s = (Inr auth, s1)" and "Permission auth = PermissionWrite"
    and "batch g env h i r s = (ops, s')" and "body (run_writes ops empty_response) = [BatchPayload b]"
    and "j < length (br_Objects input)" and "rs_Actions (bs_Objects b ! j) ''upload'' = Some up"
    and "env_now env w < env_now env (sv_world s1) + ttl (sv_cache s)"
    and "store_Head (env_views env w 0) (RepositoryID auth) (ro_OID (br_Objects input ! j)) = Inr \<lparr>obj_Size = ro_Size (br_Objects input ! j)\<rparr>"
  shows "\<exists>link. rs_Actions (bs_Objects b ! j) ''verify'' = Some link
    \<and> ac_Header link ''Authorization'' = Some (req_Header r ''Authorization'')
    \<and> (\<forall>r' i'. follows g link (br_Objects input ! j) r r' \<longrightarrow>
         final_status (run_writes (fst (verify g env h i' r' (s'\<lparr>sv_world := w\<rparr>))) empty_response) = 200
         \<and> sv_world (snd (verify g env h i' r' (s'\<lparr>sv_world := w\<rparr>))) = w)"
proof -
  let ?ob = "br_Objects input ! j" and ?orig = "req_Header r ''Authorization''"
  let ?link = "verify_action h (req_owner r) (req_repository r) ?orig"
  have enough: "sufficient input auth" using assms(4,7) by (simp add: sufficient_def)
  note granted = batch_granted [OF assms(3,6) enough, of i]
  have "bs_Objects b ! j = fst (processObject h (env_views env (sv_world s1) j) ''upload'' (RepositoryID auth)
      (req_owner r) (req_repository r) ?orig ?ob)"
    using granted assms(4,8-10) by (auto simp: processObjects_def object_work_def Let_def)
  then have link: "rs_Actions (bs_Objects b ! j) ''verify'' = Some ?link" using assms(11) upload_comes_with_link by simp
  have ob: "acceptable_object h ?ob" using validated_objects [OF assms(3)] assms(10) by (simp add: list_all_iff)
  obtain m where s': "s' = s1\<lparr>sv_metrics := m\<rparr>" using batch_granted_state [OF assms(3,6) enough assms(8)] by blast
  have token: "basicToken r = Some (token, ?orig)" using assms(3) by (simp add: batch_admissible_def)
  have "verify g env h i' r' (s'\<lparr>sv_world := w\<rparr>) = (writeJSON 200 (VerifyPayload (ro_OID ?ob)), observeVerify ''success'' s2)
      \<and> sv_world s2 = w"
    if r': "follows g ?link ?ob r r'"
      and s2: "lfs_authorize g env (req_owner r) (req_repository r) token (s'\<lparr>sv_world := w\<rparr>) = (Inr auth, s2)" "sv_world s2 = w"
    for r' i' s2
  proof -
    have read: "readJSON g decode_requestObject requestObject_zero r' = Inr ?ob"
      using r' object_json_decoded [OF acceptable_wire_object [OF ob assms(2)]] object_json_utf8 [OF acceptable_wire_object [OF ob assms(2)]]
      by (intro readJSON_text [where j = "object_json ?ob" and t = "[]"])
        (simp_all add: follows_def request_json_writable skip_space_def)
    have header: "req_Header r' ''Authorization'' = ?orig" using r' by (simp add: follows_def verify_action_def)
    then have "basicToken r' = basicToken r" unfolding basicToken_def by (simp only:)
    then have "basicToken r' = Some (token, req_Header r' ''Authorization'')" using token header by simp
    with r' read ob s2 show ?thesis
      by (intro conjI verify_confirmed [where stored = "\<lparr>obj_Size = ro_Size ?ob\<rparr>"]) (use assms(7,13) in \<open>simp_all add: follows_def\<close>)
  qed
  moreover obtain s2 where "lfs_authorize g env (req_owner r) (req_repository r) token (s'\<lparr>sv_world := w\<rparr>) = (Inr auth, s2)" "sv_world s2 = w"
    using authorization_cached [OF assms(1,6,5,12) refl refl, of "s'\<lparr>sv_world := w\<rparr>"] s' by auto
  moreover have "ac_Header ?link ''Authorization'' = Some ?orig" by (simp add: verify_action_def)
  ultimately show ?thesis using link by (intro exI [of _ ?link]) (auto simp: observeVerify_def)
qed

text \<open>A concrete upload: nothing is stored before the client has been told where, then it is.\<close>

definition flow_env :: "time lfs_env" where
  "flow_env = \<lparr>env_now = (\<lambda>t. t), env_authorize = (\<lambda>ow nm tok t. (Inr (auth0\<lparr>RepositoryID := 42\<rparr>), t + 1)),
     env_views = (\<lambda>t _. if t < 10 then missing0 else missing0\<lparr>store_Head := (\<lambda>_ _. Inr \<lparr>obj_Size = 5\<rparr>)\<rparr>)\<rparr>"

definition upload0 :: batchRequest where
  "upload0 = \<lparr>br_Operation = ''upload'', br_Transfers = [], br_Ref = JNull, br_HashAlgo = [],
     br_Objects = [\<lparr>ro_OID = oid0, ro_Size = 5\<rparr>]\<rparr>"

definition upload_request0 :: http_request where
  "upload_request0 = request0\<lparr>req_Body := text_stream (json_text (request_json upload0))\<rparr>"

definition verify_request0 :: http_request where
  "verify_request0 = request0\<lparr>req_Body := text_stream (json_text (object_json \<lparr>ro_OID = oid0, ro_Size = 5\<rparr>))\<rparr>"

lemma upload_request0_reads: "readJSON lib0 decode_batchRequest batchRequest_zero upload_request0 = Inr upload0"
  by code_simp

lemma upload_request0_admissible: "batch_admissible lib0 handler0 upload_request0 upload0 ''ghu_x''"
proof -
  have "basicToken upload_request0 = Some (''ghu_x'', req_Header upload_request0 ''Authorization'')"
    using parse_basic_auth_header [of "''x''" "''ghu_x''"] by (simp add: basicToken_def upload_request0_def request0_def)
  moreover have "acceptsLFSJSON lib0 upload_request0"
    by (simp add: acceptsLFSJSON_def upload_request0_def request0_def Let_def ascii_string_def)
  ultimately show ?thesis
    by (simp add: batch_admissible_def upload_request0_reads validateBatch_def validate_objects_exact
        acceptable_object_def oid0_ok MaximumBatchObjects_def upload0_def)
qed

lemma missing0_upload: "\<exists>a. rs_Actions (fst (processObject handler0 missing0 ''upload'' 42 ow nm auth \<lparr>ro_OID = oid0, ro_Size = 5\<rparr>)) ''upload'' = Some a"
proof -
  obtain a where "store_PresignUpload view0 42 oid0 5 = Inr a" using upload_ok0 unfolding view0_def s3_view_def by auto
  then have "store_PresignUpload missing0 42 oid0 5 = Inr a" "store_Head missing0 42 oid0 = Inl ErrStorageNotFound"
    by (simp_all add: missing0_def)
  then show ?thesis by (simp add: process_defs)
qed

lemma upload_then_verify_witness:
  "\<exists>b s'. batch lib0 flow_env handler0 ''id'' upload_request0 server0 = (writeJSON 200 (BatchPayload b), s')
     \<and> rs_Actions (bs_Objects b ! 0) ''upload'' \<noteq> None
     \<and> final_status (run_writes (fst (verify lib0 flow_env handler0 ''v'' verify_request0 (s'\<lparr>sv_world := 20\<rparr>))) empty_response) = 200"
proof -
  let ?r = upload_request0 and ?auth = "auth0\<lparr>RepositoryID := 42\<rparr>" and ?orig = "req_Header upload_request0 ''Authorization''"
  have inv: "cache_inv (sv_cache server0)" using cache_inv_newWithClock by (simp add: server0_def)
  have int: "in_int64 (h_maxObjectSize handler0)" by (simp add: int64_defs)
  have up: "br_Operation upload0 = ''upload''" "0 < length (br_Objects upload0)" by (simp_all add: upload0_def)
  have miss: "fst (cache_Get lib0 (sv_cache server0) (env_now flow_env (sv_world server0)) ''ghu_x'' (req_owner ?r) (req_repository ?r)) = None"
    by (simp add: server0_def cache_Get_def newWithClock_def)
  obtain s1 where s1: "lfs_authorize lib0 flow_env (req_owner ?r) (req_repository ?r) ''ghu_x'' server0 = (Inr ?auth, s1)" "sv_world s1 = 1"
    by (simp add: lfs_authorize_def server0_def cache_Get_def newWithClock_def flow_env_def)
  have writer: "Permission ?auth = PermissionWrite" by (simp add: auth0_def)
  then have enough: "sufficient upload0 ?auth" using up by (simp add: sufficient_def)
  obtain ops s' where run: "batch lib0 flow_env handler0 ''id'' ?r server0 = (ops, s')" by (metis prod.exhaust)
  obtain b where b: "ops = writeJSON 200 (BatchPayload b)"
    "bs_Objects b = fst (processObjects handler0 (env_views flow_env (sv_world s1)) ''upload'' 42 (req_owner ?r) (req_repository ?r) ?orig
       (br_Objects upload0) (sv_metrics s1))"
    using batch_granted [OF upload_request0_admissible s1(1) enough, of "''id''"] run up by simp
  then have "bs_Objects b ! 0 = fst (processObject handler0 missing0 ''upload'' 42 (req_owner ?r) (req_repository ?r) ?orig \<lparr>ro_OID = oid0, ro_Size = 5\<rparr>)"
    by (simp add: processObjects_def object_work_def upload0_def flow_env_def s1(2) Let_def)
  then obtain a where a: "rs_Actions (bs_Objects b ! 0) ''upload'' = Some a" using missing0_upload by metis
  have body: "body (run_writes ops empty_response) = [BatchPayload b]" by (simp add: b(1))
  have later: "env_now flow_env 20 < env_now flow_env (sv_world s1) + ttl (sv_cache server0)"
    by (simp add: s1(2) flow_env_def server0_def newWithClock_def AuthorizationCacheTTL_def duration_units)
  have stored: "store_Head (env_views flow_env 20 0) (RepositoryID ?auth) (ro_OID (br_Objects upload0 ! 0))
      = Inr \<lparr>obj_Size = ro_Size (br_Objects upload0 ! 0)\<rparr>" by (simp add: flow_env_def upload0_def)
  have size: "int (length (json_text (object_json \<lparr>ro_OID = oid0, ro_Size = 5\<rparr>))) \<le> MaximumBatchRequestSize" by code_simp
  have "content_type lib0 verify_request0 = ''application/json''" by code_simp
  then have "follows lib0 (verify_action handler0 (req_owner ?r) (req_repository ?r) ?orig) (br_Objects upload0 ! 0) ?r verify_request0"
    using size by (simp add: follows_def verify_action_def verify_request0_def upload_request0_def request0_def upload0_def
        acceptsLFSJSON_def Let_def ascii_string_def)
  moreover have "rs_Actions (bs_Objects b ! 0) ''verify'' = Some (verify_action handler0 (req_owner ?r) (req_repository ?r) ?orig)"
    using \<open>bs_Objects b ! 0 = _\<close> a upload_comes_with_link by metis
  ultimately have "final_status (run_writes (fst (verify lib0 flow_env handler0 ''v'' verify_request0 (s'\<lparr>sv_world := 20\<rparr>))) empty_response) = 200"
    using upload_then_verify [OF inv int upload_request0_admissible up(1) miss s1(1) writer run body up(2) a later stored] by auto
  then show ?thesis using run b(1) a by blast
qed

end
