(* ===== verification/Verify_Link.thy ===== *)
theory Verify_Link
  imports Golfs_Server
begin

section \<open>The verify link of an upload\<close>

text \<open>
  An upload action comes with a link on which the client confirms the upload. The handler
  writes it from the public URL of the configuration and the two path values of the request;
  the mux reads it again when the client follows it. This theory composes the two: the
  configuration of package config, \<open>verify_action\<close> of package lfs, net/url and the mux.
\<close>

definition verify_path :: "string \<Rightarrow> string \<Rightarrow> string" where
  "verify_path owner repo = ''/github.com/'' @ path_escape owner @ ''/'' @ path_escape repo @ ''/info/lfs/objects/verify''"

text \<open>What url.URL.EscapedPath gives back, which is the path a client sends and the mux matches.\<close>

definition escaped_path :: "url \<Rightarrow> string" where
  "escaped_path u = escaped_part PathMode (raw_path u) (path u)"

lemma path_safe_cases: "path_safe c \<longleftrightarrow> alnum c \<or> c \<in> set ''-_.~$&+:=@''"
  unfolding path_safe_def alnum_def by blast

lemma path_safe_bytes:
  assumes "path_safe c"
  shows "c \<noteq> CHR ''?'' \<and> c \<noteq> CHR ''#'' \<and> \<not> control_byte c \<and> \<not> should_escape PathMode c"
proof (cases "alnum c")
  case True
  then show ?thesis by (auto simp: alnum_def control_byte_def should_escape_def)
next
  case False
  have "list_all (\<lambda>c. c \<noteq> CHR ''?'' \<and> c \<noteq> CHR ''#'' \<and> \<not> control_byte c \<and> \<not> should_escape PathMode c) ''-_.~$&+:=@''"
    by code_simp
  then show ?thesis using False assms unfolding path_safe_cases list_all_iff by blast
qed

lemma upper_hex_safe: "n < 16 \<Longrightarrow> path_safe (upper_hex n)"
  by (drule less_16_cases) (auto simp: upper_hex_def path_safe_def)

lemma path_escape_safe: "c \<in> set (path_escape s) \<Longrightarrow> path_safe c \<or> c = CHR ''%''"
proof (induction s)
  case (Cons d s)
  then show ?case using nibbles [of d] upper_hex_safe by (auto split: if_splits)
qed simp

lemma path_unescape_mode: "url_unescape PathMode s = path_unescape s"
  by (induction s rule: path_unescape.induct) (auto split: list.splits option.splits)

lemma verify_path_form:
  "verify_path owner repo
     = ''/github.com/'' @ path_escape owner @ CHR ''/'' # path_escape repo @ CHR ''/'' # ''info/lfs/objects/verify''"
  by (simp add: verify_path_def)

lemma verify_path_unescapes:
  "url_unescape PathMode (verify_path owner repo)
     = Some (''/github.com/'' @ owner @ CHR ''/'' # repo @ CHR ''/'' # ''info/lfs/objects/verify'')"
  unfolding path_unescape_mode verify_path_form by (simp add: path_unescape_slash)

lemma verify_path_bytes:
  assumes "c \<in> set (verify_path owner repo)"
  shows "c \<noteq> CHR ''?'' \<and> c \<noteq> CHR ''#'' \<and> \<not> control_byte c \<and> (c = CHR ''%'' \<or> \<not> should_escape PathMode c)"
proof -
  have "list_all (\<lambda>c. c \<noteq> CHR ''?'' \<and> c \<noteq> CHR ''#'' \<and> \<not> control_byte c \<and> \<not> should_escape PathMode c)
      (''/github.com/'' @ CHR ''/'' # CHR ''/'' # ''info/lfs/objects/verify'')" by code_simp
  moreover have "c \<in> set (''/github.com/'' @ CHR ''/'' # CHR ''/'' # ''info/lfs/objects/verify'')
      \<or> c \<in> set (path_escape owner) \<or> c \<in> set (path_escape repo)"
    using assms unfolding verify_path_form by auto
  moreover have "CHR ''%'' \<noteq> CHR ''?'' \<and> CHR ''%'' \<noteq> CHR ''#'' \<and> \<not> control_byte (CHR ''%'')" by code_simp
  ultimately show ?thesis
    using path_escape_safe [of c owner] path_escape_safe [of c repo] path_safe_bytes [of c]
    unfolding list_all_iff by blast
qed

lemma path_escape_dots: "path_escape ''.'' = ''.''" "path_escape ''..'' = ''..''" "path_escape [] = []"
  by code_simp+

lemma verify_path_dispatched:
  assumes "owner \<notin> {[], ''.'', ''..''}" and "repo \<notin> {[], ''.'', ''..''}"
  shows "publicMux ''POST'' (verify_path owner repo) = ServeVerify owner repo"
proof -
  have segs: "split_on (CHR ''/'') (verify_path owner repo)
      = [[], ''github.com'', path_escape owner, path_escape repo, ''info'', ''lfs'', ''objects'', ''verify'']"
    unfolding verify_path_form by (simp add: split_on_append [OF path_escape_no_slash])
  have clean: "path_escape s \<notin> {[], ''.'', ''..''}" if "s \<notin> {[], ''.'', ''..''}" for s
    using that path_escape_dots path_escape_inject [of s "[]"] path_escape_inject [of s "''.''"]
      path_escape_inject [of s "''..''"] by simp
  have "unescaped (path_escape s) = s" for s by (simp add: unescaped_def)
  moreover have "unescaped ''github.com'' = ''github.com''" "unescaped ''info'' = ''info''" "unescaped ''lfs'' = ''lfs''"
    "unescaped ''objects'' = ''objects''" "unescaped ''verify'' = ''verify''" by code_simp+
  ultimately show ?thesis using segs clean [OF assms(1)] clean [OF assms(2)]
    by (simp add: publicMux_def clean_path_def Let_def lfs_tail_def has_prefix_def verify_path_def)
qed

text \<open>What the escaped path of a parsed URL is when the parser was given \<open>q\<close>.\<close>

lemma escaped_path_verify:
  assumes "path v = d" and "raw_path v = (if url_escape PathMode d = verify_path owner repo then [] else verify_path owner repo)"
    and "url_unescape PathMode (verify_path owner repo) = Some d"
  shows "escaped_path v = verify_path owner repo"
proof -
  let ?q = "verify_path owner repo"
  have "valid_encoded PathMode ?q"
    unfolding valid_encoded_def list_all_iff using verify_path_bytes by fastforce
  moreover have "?q \<noteq> []" "d \<noteq> ''*''" using assms(3) verify_path_unescapes [of owner repo] by (auto simp: verify_path_def)
  ultimately show ?thesis using assms by (auto simp: escaped_path_def escaped_part_def)
qed

text \<open>
  C28. The verify link of an upload leads back to where it came from: under any configuration that
  loads and whose public URL does not end in a bare question mark or hash, the link parses to
  the public host, and its path is dispatched to the verify handler with the very owner and
  repository of the upload, whatever bytes these hold, as long as neither is empty or a dot
  segment.
\<close>

theorem verify_link_leads_back:
  assumes "config_Load g order env = Inr cfg"
    and "mset (order (required_settings cfg)) = mset (required_settings cfg)"
    and "CHR ''?'' \<notin> set (cfg_PublicURL cfg)" and "CHR ''#'' \<notin> set (cfg_PublicURL cfg)"
    and "owner \<notin> {[], ''.'', ''..''}" and "repo \<notin> {[], ''.'', ''..''}"
  shows "\<exists>u v. url_parse g (cfg_PublicURL cfg) = Some u
    \<and> url_parse g (ac_Href (verify_action (lfs_New (handler_options cfg)) owner repo auth)) = Some v
    \<and> scheme v = scheme u \<and> host v = host u \<and> raw_query v = [] \<and> fragment v = []
    \<and> publicMux ''POST'' (escaped_path v) = ServeVerify owner repo"
proof -
  let ?s = "trim_right_chars ''/'' (cfg_PublicURL cfg)" and ?q = "verify_path owner repo"
  have "cfg_PublicURL cfg = trim_right_chars ''/'' (env ''GOLFS_PUBLIC_URL'')"
    using assms(1) by (auto simp: config_Load_def bind_result_Inr_iff Let_def base_config_def split: option.splits)
  then have s: "?s = cfg_PublicURL cfg" "?s = [] \<or> last ?s \<noteq> CHR ''/''"
    using trim_right_last [of "''/''" "cfg_PublicURL cfg"] by auto
  have href: "ac_Href (verify_action (lfs_New (handler_options cfg)) owner repo auth) = ?s @ ?q"
    by (simp add: verify_action_def lfs_New_def handler_options_def verify_path_def)
  have "check_public_url g cfg = None"
    using config_Load_Validate [OF assms(1)] config_Validate_None [of order cfg g, OF assms(2)] by blast
  then obtain u where u: "url_parse g ?s = Some u" "bare_origin u" using public_url_origin s(1) by metis
  have q: "has_prefix ?q ''/''" "CHR ''?'' \<notin> set ?q" "CHR ''#'' \<notin> set ?q" "\<not> list_ex control_byte ?q"
    using verify_path_bytes unfolding list_ex_iff by (auto simp: has_prefix_def verify_path_def)
  have plain: "CHR ''?'' \<notin> set ?s" "CHR ''#'' \<notin> set ?s" using assms(3,4) s(1) by simp_all
  from parse_below_origin [OF u plain s(2) q verify_path_unescapes]
  obtain v where v: "url_parse g (?s @ ?q) = Some v" "scheme v = scheme u" "host v = host u" "raw_query v = []" "fragment v = []"
    and p: "path v = ''/github.com/'' @ owner @ CHR ''/'' # repo @ CHR ''/'' # ''info/lfs/objects/verify''"
      "raw_path v = (if url_escape PathMode (''/github.com/'' @ owner @ CHR ''/'' # repo @ CHR ''/'' # ''info/lfs/objects/verify'') = ?q
         then [] else ?q)"
    by (elim exE conjE) (rule that)
  have "escaped_path v = ?q" by (rule escaped_path_verify [OF p verify_path_unescapes])
  then show ?thesis using u(1) v verify_path_dispatched [OF assms(5,6)] href s(1) by auto
qed


theorem verify_link_leads_back_witness:
  "\<exists>v. url_parse lib0 (ac_Href (verify_action (lfs_New (handler_options cfg0)) ''a/b'' ''c'' ''Basic eA=='')) = Some v
    \<and> publicMux ''POST'' (escaped_path v) = ServeVerify ''a/b'' ''c''"
  using verify_link_leads_back [OF config_Load_env0, of "''a/b''" "''c''" "''Basic eA==''"]
  by (auto simp: cfg0_def)

definition env_query :: environment where
  "env_query name = (if name = ''GOLFS_PUBLIC_URL'' then ''https://lfs.example.test?'' else env0 name)"


end
