(* ===== verification/Spec2Isabelle.thy ===== *)
theory Spec2Isabelle
  imports Metric_Labels Github_Links LFS_Concurrent Upload_Flow Verify_Link
begin

text \<open>
  A verification library for golfs, a stateless Git LFS server (Go, under \<^verbatim>\<open>src/\<close>). The
  server authorizes a client's GitHub token through a GitHub App, and answers Git LFS batch
  requests with presigned S3 URLs; a client then talks to S3 directly and comes back once, to
  have an upload verified.

  \<^bold>\<open>The program and its theories.\<close>
  \<^item> \<open>Config\<close>: \<^verbatim>\<open>internal/config/config.go\<close>. The settings, their parsers and defaults, and
    validation, which ranges over a Go map in an order the model takes as a parameter.
  \<^item> \<open>Go_Errors\<close>, \<open>Forge\<close>: \<^verbatim>\<open>internal/forge/forge.go\<close>. Error values with their chains, permissions,
    and the Authorizer interface as the locale \<open>authorizer\<close>.
  \<^item> \<open>Github\<close>: \<^verbatim>\<open>internal/forge/github/github.go\<close>. The constructor, the startup check, \<open>Authorize\<close>
    with its requests, the pages of installations, the App's JWT, the mapping of failed answers.
    It interprets \<open>authorizer\<close>. \<open>Github_Links\<close> says which URLs the user's token is sent to.
  \<^item> \<open>Auth_Cache\<close>: \<^verbatim>\<open>internal/authcache/cache.go\<close>. The map and the list of entries, keyed by a
    MAC; refined from a list ordered by use. It interprets the locale \<open>auth_cache\<close>.
  \<^item> \<open>Storage\<close>, \<open>S3_Store\<close>: \<^verbatim>\<open>internal/storage/storage.go\<close>, \<^verbatim>\<open>internal/storage/s3store/s3store.go\<close>.
    The ObjectStore interface as the locale \<open>object_store\<close>, and its S3 provider: keys, head,
    presigning, the payload-hash step of the SDK's stack, error mapping.
  \<^item> \<open>Observability\<close>: \<^verbatim>\<open>internal/observability/metrics.go\<close>. The vectors, their registration, the
    instrumented writer.
  \<^item> \<open>LFS_Protocol\<close>, \<open>LFS_Objects\<close>, \<open>LFS_Pool\<close>, \<open>LFS_Handler\<close>: \<^verbatim>\<open>internal/lfs/handler.go\<close>. The wire
    data and its validation; one object of a batch; the pool of goroutines as a step relation
    and the function it computes; the two endpoints, the middleware and the server's state.
  \<^item> \<open>LFS_Wire\<close>: the same file seen from the wire: request bodies as bytes under the size limit,
    answers as the bytes of their JSON encoding.
  \<^item> \<open>LFS_Concurrent\<close>: the same handlers when requests run at the same time: a step relation over
    the shared cache, counters and world, whose runs of one request alone are the handlers.
  \<^item> \<open>Golfs_Server\<close>, \<open>Golfs_Process\<close>: \<^verbatim>\<open>cmd/golfs/main.go\<close>. Startup and the public listener; the
    operations listener, and run as a step relation from the first listener to the exit status.
  \<^item> \<open>Upload_Flow\<close>, \<open>Verify_Link\<close>, \<open>Metric_Labels\<close>: compositions over several requests: an upload
    from its offer to its confirmation; the verify link from the configuration to the mux; what a
    started process counts and measures, over all components and both listeners.
  \<^item> \<open>Prelude\<close>, \<open>Go_Strings\<close>, \<open>Go_Numbers\<close>, \<open>Go_Duration\<close>, \<open>Go_Url\<close>, \<open>Go_Json\<close>, \<open>Go_Json_String\<close>,
    \<open>Go_Json_Text\<close>, \<open>Go_Http\<close>: what the code uses of Go's library: byte strings, 64-bit integers,
    durations and their text, URLs, JSON between bytes, values and structs, Basic credentials
    and base64, the ResponseWriter.

  \<^bold>\<open>How they interact.\<close> A request passes \<open>routeMetrics\<close> and \<open>Middleware\<close>, is dispatched to
  \<open>batch\<close> or \<open>verify\<close>, which decode and validate it, take the token from its credentials, ask
  the cache and, on a miss, the authorizer, and then ask the store about each object. State
  is passed explicitly: the server's state holds the cache, the counters and the outside world;
  every operation of a component returns its state updated. Interfaces are locales: clients
  are proved in them (\<open>context authorizer\<close>, \<open>context object_store\<close>) and rest on the interpretations.
  The locale \<open>authorizer_invariant\<close> carries a predicate through all operations of the authorizer: it
  is interpreted for its settings, the token it has signed, the labels it counts under, and the
  agreement of its counters and durations.
  The program has one Metrics object; each component increments fields no other one touches,
  so each keeps its own copy of the record here and uses its own fields only.

  \<^bold>\<open>What the lemmas show.\<close> Access: a transfer action rests on what GitHub confirmed and is scoped
  to the authorized repository and the requested object, also when requests interleave. The
  cache: bounded, consistent, never stale, refined from its specification. The pool: never
  stuck, terminating, independent of the schedule, truthfully counted. Validation, error
  classes, delays and statuses: exact on every branch. The wire: requests read back as they were
  written, oversized ones are refused, answers lose nothing; an offered upload can be confirmed.
  Round trips for URLs, durations, the allowlist, the Link header, credentials. Configuration and
  startup fail closed; readiness and exit status are truthful. Metrics: registered without panic,
  counted with the declared labels out of fixed words, bounded but for the method of a request, and
  consistent: as many durations as requests.

  \<^bold>\<open>Bounds.\<close> No fuel is used: the pages of installations are counted down from the code's own
  limit of one hundred, the scanner of JSON consumes its input, the other loops are structural
  or have a measure. Integers are \<open>int\<close> with the wrap-around of 64 bits written out wherever the
  code can overflow. A \<open>golib\<close> value stands for the parts of the library that are not computed
  here: lower-casing of text that is not ASCII, quoting with \<^verbatim>\<open>%q\<close>, the MAC, IPv6 literals, the
  texts of library errors.

  \<^bold>\<open>Not modelled.\<close> TLS, HTTP framing and redirects, the AWS SDK, RSA and PEM, GitHub's answers
  (parameters, as are the redirects of the mux); what the Prometheus library makes
  of registered collectors: buckets, sums and the text of the metrics page; logging; deadlines and
  cancellation, which show as failing requests. In \<open>LFS_Concurrent\<close> a call of the authorizer is one
  step; the cache's mutex makes each cache operation one step.
\<close>

section \<open>The server as a whole\<close>

text \<open>A fresh authorization leaves exactly its own evidence.\<close>

lemma fresh_authorization:
  assumes "lfs_authorize g (golfs_env g (recording gh) sdk stores) owner repo token s = (Inr auth, s1)"
    and "sv_world s = (a, (w, []))"
    and "fst (cache_Get g (sv_cache s) (fst (clock gh w)) token owner repo) = None"
  shows "\<exists>a1 w1 log. sv_world s1 = (a1, (w1, log)) \<and> github_evidence g a owner repo token log auth"
proof -
  obtain c where c: "cache_Get g (sv_cache s) (fst (clock gh w)) token owner repo = (None, c)"
    using assms(3) by (metis prod.collapse)
  obtain p a1 w1 log where p: "Authorize g (recording gh) owner repo token (a, (w, [])) = (p, (a1, (w1, log)))"
    by (metis prod.exhaust)
  have now: "env_now (golfs_env g (recording gh) sdk stores) (sv_world s) = fst (clock gh w)"
    using assms(2) by (simp add: golfs_env_def)
  have "p = Inr auth \<and> sv_world s1 = (a1, (w1, log))"
    using assms(1,2) c p now by (cases p) (auto simp: lfs_authorize_def golfs_env_def)
  then show ?thesis using authorize_evidence [of g gh owner repo token a w auth a1 w1 log] p by auto
qed

text \<open>
  C1. From the request to the storage grant: when a batch whose authorization is not cached is
  answered with a transfer action, GitHub confirmed in this very request, by the exchanges in
  the log and no others, that the caller's token may use an allowed installation and that the
  repository named in the path has the permission the operation needs; and the action is a
  signature for exactly the requested OID under that repository's ID.
\<close>

theorem transfer_rests_on_github_and_scope:
  assumes "batch g (golfs_env g (recording gh) sdk stores) h i r s = (ops, s')"
    and "sv_world s = (a, (w, []))"
    and "\<And>token. basicToken r = Some (token, req_Header r ''Authorization'') \<Longrightarrow>
      fst (cache_Get g (sv_cache s) (fst (clock gh w)) token (req_owner r) (req_repository r)) = None"
    and "body (run_writes ops empty_response) = [BatchPayload b]" and "j < length (bs_Objects b)"
    and "rs_Actions (bs_Objects b ! j) name = Some act" and "name \<noteq> ''verify''"
  shows "\<exists>token input auth a1 w1 log granted.
    basicToken r = Some (token, req_Header r ''Authorization'') \<and> sv_world s' = (a1, (w1, log))
    \<and> github_evidence g a (req_owner r) (req_repository r) token log auth \<and> sufficient input auth
    \<and> length (br_Objects input) = length (bs_Objects b) \<and> well_formed_oid (ro_OID (br_Objects input ! j))
    \<and> (name = ''download'' \<and> br_Operation input = ''download''
         \<and> s3_download_grant g sdk (fst (stores j)) (RepositoryID auth) (ro_OID (br_Objects input ! j)) granted
         \<and> act = fromStorageAction granted True
       \<or> name = ''upload'' \<and> br_Operation input = ''upload''
         \<and> s3_upload_grant g sdk (fst (stores j)) (RepositoryID auth) (ro_OID (br_Objects input ! j))
              (ro_Size (br_Objects input ! j)) granted
         \<and> act = fromStorageAction granted False)"
proof -
  let ?env = "golfs_env g (recording gh) sdk stores"
  have final: "final_status (run_writes ops empty_response) = 200"
    using batch_complete [of i g ?env h r s] assms(1,4) by (auto simp: complete_answer_def Let_def)
  show ?thesis
  proof (cases rule: batch_cases [of g ?env h i r s])
    case (granted input token auth s1)
    let ?obs = "br_Objects input"
    have tok: "basicToken r = Some (token, req_Header r ''Authorization'')"
      using granted(1) by (simp add: batch_admissible_def)
    obtain a1 w1 log where ev: "sv_world s' = (a1, (w1, log))"
      "github_evidence g a (req_owner r) (req_repository r) token log auth"
      using fresh_authorization [OF granted(2) assms(2) assms(3) [OF tok]] batch_granted_world [OF granted assms(1)] by auto
    have payload: "body (run_writes (fst (batch g ?env h i r s)) empty_response) = [BatchPayload b]"
      using assms(1,4) by simp
    note object = batch_granted_object [OF granted payload assms(5)]
    have view: "env_views ?env (sv_world s1) j = s3_view g sdk (stores j) (stores j) (stores j)"
      by (simp add: golfs_env_def)
    have "rs_Actions (fst (processObject h (env_views ?env (sv_world s1) j) (br_Operation input) (RepositoryID auth)
        (req_owner r) (req_repository r) (req_Header r ''Authorization'') (?obs ! j))) name = Some act"
      using assms(6) object by simp
    note scope = grant_scope [OF view this assms(7)]
    have oper: "br_Operation input = ''upload'' \<or> br_Operation input = ''download''"
      using validated_operation [of g h input] granted(1) by (simp add: batch_admissible_def)
    obtain granted where "name = ''download'' \<and> br_Operation input = ''download''
         \<and> s3_download_grant g sdk (fst (stores j)) (RepositoryID auth) (ro_OID (?obs ! j)) granted
         \<and> act = fromStorageAction granted True
       \<or> name = ''upload'' \<and> br_Operation input = ''upload''
         \<and> s3_upload_grant g sdk (fst (stores j)) (RepositoryID auth) (ro_OID (?obs ! j)) (ro_Size (?obs ! j)) granted
         \<and> act = fromStorageAction granted False"
      using scope oper by blast
    then show ?thesis using tok ev object granted(3) scope
      by (intro exI [of _ token] exI [of _ input] exI [of _ auth] exI [of _ a1] exI [of _ w1] exI [of _ log]
          exI [of _ granted]) simp
  qed (use final assms(1) in \<open>auto split: if_splits\<close>)
qed

text \<open>The concrete server of the witnesses, against the concrete GitHub and S3 of before.\<close>

abbreviation stores0 :: "nat \<Rightarrow> Store \<times> unit" where
  "stores0 \<equiv> \<lambda>_. (store0, ())"

abbreviation golfs_env0 :: "(time \<times> exchange list) gh_state lfs_env" where
  "golfs_env0 \<equiv> golfs_env lib0 (recording outside0) sdk0 stores0"

definition golfs0 :: "(time \<times> exchange list) gh_state server" where
  "golfs0 = \<lparr>sv_cache = newWithClock 10 AuthorizationCacheTTL ''s'', sv_metrics = None,
     sv_world = (github0, (0, []))\<rparr>"

lemma golfs0_miss: "fst (cache_Get g (sv_cache golfs0) now token owner repo) = None"
  by (simp add: golfs0_def cache_Get_def newWithClock_def)

lemma golfs0_authorize:
  "\<exists>s1. lfs_authorize lib0 golfs_env0 ''o'' ''r'' ''ghu_x'' golfs0
     = (Inr \<lparr>RepositoryID = 42, Permission = PermissionRead, CanonicalName = ''o/r''\<rparr>, s1)"
proof -
  obtain s1 where "run0 ''r'' ''ghu_x'' = (Inr \<lparr>RepositoryID = 42, Permission = PermissionRead, CanonicalName = ''o/r''\<rparr>, s1)"
    using run0_ok by (metis prod.collapse)
  then show ?thesis
    by (simp add: lfs_authorize_def golfs0_def cache_Get_def newWithClock_def golfs_env_def run0_def)
qed

lemma transfer_rests_on_github_and_scope_witness:
  "\<exists>b act. body (run_writes (fst (batch lib0 golfs_env0 handler0 ''id'' request0 golfs0)) empty_response) = [BatchPayload b]
     \<and> rs_Actions (bs_Objects b ! 0) ''download'' = Some act
     \<and> (\<exists>log auth. github_evidence lib0 github0 ''o'' ''r'' ''ghu_x'' log auth \<and> Permission auth \<noteq> PermissionNone)"
proof -
  let ?in = "\<lparr>br_Operation = ''download'', br_Transfers = [], br_Ref = JNull, br_HashAlgo = [],
     br_Objects = [\<lparr>ro_OID = oid0, ro_Size = 5\<rparr>]\<rparr>"
  have path: "req_owner request0 = ''o''" "req_repository request0 = ''r''" by (simp_all add: request0_def)
  obtain s1 where s1: "lfs_authorize lib0 golfs_env0 (req_owner request0) (req_repository request0) ''ghu_x'' golfs0
     = (Inr \<lparr>RepositoryID = 42, Permission = PermissionRead, CanonicalName = ''o/r''\<rparr>, s1)"
    using golfs0_authorize unfolding path by blast
  obtain ops s' where run: "batch lib0 golfs_env0 handler0 ''id'' request0 golfs0 = (ops, s')" by (metis prod.exhaust)
  have views: "env_views golfs_env0 x k = view0" for x k by (simp add: golfs_env_def view0_def)
  obtain a where a: "store_PresignDownload view0 42 oid0 = Inr a" using view0_download by blast
  define b where "b = \<lparr>bs_Transfer = ''basic'', bs_HashAlgo = ''sha256'',
      bs_Objects = fst (processObjects handler0 (env_views golfs_env0 (sv_world s1)) ''download'' 42 ''o'' ''r''
        (req_Header request0 ''Authorization'') [\<lparr>ro_OID = oid0, ro_Size = 5\<rparr>] (sv_metrics s1))\<rparr>"
  have payload: "body (run_writes ops empty_response) = [BatchPayload b]"
    using batch_granted [OF request0_admissible s1, of "''id''"] run by (simp add: sufficient_def b_def path)
  have first: "0 < length (bs_Objects b)" "rs_Actions (bs_Objects b ! 0) ''download'' = Some (fromStorageAction a True)"
    by (simp_all add: b_def processObjects_def object_work_def Let_def views processObject_def process_download_def
        base_response_def view0_head matches_def a)
  have tok: "basicToken request0 = Some (''ghu_x'', req_Header request0 ''Authorization'')"
    using request0_admissible by (simp add: batch_admissible_def)
  have world: "sv_world golfs0 = (github0, (0, []))" by (simp add: golfs0_def)
  obtain token input auth a1 w1 log where "basicToken request0 = Some (token, req_Header request0 ''Authorization'')"
    "github_evidence lib0 github0 (req_owner request0) (req_repository request0) token log auth" "sufficient input auth"
    using transfer_rests_on_github_and_scope [OF run world golfs0_miss payload first] by blast
  then have "github_evidence lib0 github0 ''o'' ''r'' ''ghu_x'' log auth" "Permission auth \<noteq> PermissionNone"
    using tok path by (auto simp: sufficient_def split: if_splits)
  moreover have "body (run_writes (fst (batch lib0 golfs_env0 handler0 ''id'' request0 golfs0)) empty_response) = [BatchPayload b]"
    using payload run by simp
  ultimately show ?thesis using first(2) by blast
qed

text \<open>
  A token of another class, a personal or an installation token, gets no further than the
  front door: unless the very key is cached, the request is refused, as 401 when nothing else
  is wrong with it, and GitHub is not asked.
\<close>

theorem foreign_token_refused:
  assumes "basicToken r = Some (token, req_Header r ''Authorization'')" and "\<not> has_prefix token ''ghu_''"
    and "fst (cache_Get g (sv_cache s) (env_now (golfs_env g gh sdk stores) (sv_world s)) token
      (req_owner r) (req_repository r)) = None"
  shows "(batch_admissible g h r input token \<longrightarrow>
      final_status (run_writes (fst (batch g (golfs_env g gh sdk stores) h i r s)) empty_response) = 401)
    \<and> final_status (run_writes (fst (batch g (golfs_env g gh sdk stores) h i r s)) empty_response) \<noteq> 200
    \<and> sv_world (snd (batch g (golfs_env g gh sdk stores) h i r s)) = sv_world s"
proof -
  let ?env = "golfs_env g gh sdk stores"
  have env: "env_authorize ?env = Authorize g gh" by (simp add: golfs_env_def fun_eq_iff)
  obtain c where c: "lfs_authorize g ?env (req_owner r) (req_repository r) token s
      = (Inl ErrUnauthenticated, s\<lparr>sv_cache := c, sv_metrics := observeAuth ''miss'' (sv_metrics s)\<rparr>)"
    using github.refused_without_request [OF env assms(2,3)] by blast
  have tok: "token' = token" if "batch_admissible g h r input token'" for input token'
    using that assms(1) by (simp add: batch_admissible_def)
  show ?thesis
  proof (cases rule: batch_cases [of g ?env h i r s])
    case rejected
    then show ?thesis by simp
  next
    case (unauthorized input t e s1)
    then have "e = ErrUnauthenticated" "s1 = s\<lparr>sv_cache := c, sv_metrics := observeAuth ''miss'' (sv_metrics s)\<rparr>"
      using tok c by auto
    then show ?thesis using unauthorized tok by (auto simp: forge_status_def)
  next
    case (insufficient input t auth s1)
    then show ?thesis using tok c by auto
  next
    case (granted input t auth s1)
    then show ?thesis using tok c by auto
  qed
qed

lemma foreign_token_refused_witness:
  "sv_world (snd (batch lib0 golfs_env0 handler0 ''id'' (request0\<lparr>req_Header :=
     (\<lambda>h. if h = ''Authorization'' then basic_auth_header ''x'' ''ghp_x'' else [])\<rparr>) golfs0)) = (github0, (0, []))"
proof -
  let ?r = "request0\<lparr>req_Header := (\<lambda>h. if h = ''Authorization'' then basic_auth_header ''x'' ''ghp_x'' else [])\<rparr>"
  have tok: "basicToken ?r = Some (''ghp_x'', req_Header ?r ''Authorization'')"
    using parse_basic_auth_header [of "''x''" "''ghp_x''"] by (simp add: basicToken_def)
  have other: "\<not> has_prefix ''ghp_x'' ''ghu_''" by code_simp
  from foreign_token_refused [where g = lib0 and gh = "recording outside0" and sdk = sdk0 and stores = stores0
      and h = handler0 and i = "''id''", OF tok other golfs0_miss]
  show ?thesis by (simp add: golfs0_def)
qed

end
